theory Spec2Isabelle
  imports Main "HOL-Library.Multiset"
begin

section \<open>Strings\<close>

text \<open>
  A JavaScript string is modelled as a \<^typ>\<open>string\<close>: one \<^typ>\<open>char\<close> stands for one
  UTF-16 code unit below 256. The feed parser only ever compares code units with the quote,
  the comma and the newline, and \<open>trim\<close> only with white space, so nothing in the code
  looks at any other code unit.
\<close>

definition dquote :: char where
  "dquote = CHR 0x22"

definition comma :: char where
  "comma = CHR 0x2C"

definition newline :: char where
  "newline = CHR 0x0A"

text \<open>
  White space and line terminators removed by \<open>String.prototype.trim\<close>, as far as they lie
  below 256: tab, line feed, vertical tab, form feed, carriage return, space, no-break space.
\<close>

definition is_ws :: "char \<Rightarrow> bool" where
  "is_ws c = (c \<in> set [CHR 0x09, CHR 0x0A, CHR 0x0B, CHR 0x0C, CHR 0x0D, CHR 0x20, CHR 0xA0])"

definition trim :: "string \<Rightarrow> string" where
  "trim s = rev (dropWhile is_ws (rev (dropWhile is_ws s)))"

text \<open>
  \<open>s.split(sep)\<close> for a one-character separator: the pieces between the separators, in
  order; a string without separator (the empty string too) is one piece. The character
  \<open>c\<close> goes in front of the first piece of the rest; the rest always has a first piece
  (\<open>split_not_Nil\<close>), so the last case is never taken.
\<close>

fun split :: "char \<Rightarrow> string \<Rightarrow> string list" where
  "split sep [] = [[]]"
| "split sep (c # cs) =
     (if c = sep then [] # split sep cs
      else (case split sep cs of p # ps \<Rightarrow> (c # p) # ps | [] \<Rightarrow> [[c]]))"

section \<open>Feed parser: \<open>parseCSV\<close> (src/services/news.ts)\<close>

text \<open>
  The three variables of the loop body of \<open>parseCSV\<close>: the fields pushed so far, the field
  being accumulated, and the inside-quoted-field flag.
\<close>

record scan_state =
  "values" :: "string list"
  current :: string
  inQuotes :: bool

definition scan_init :: scan_state where
  "scan_init = \<lparr>values = [], current = [], inQuotes = False\<rparr>"

text \<open>
  The \<open>for\<close> loop over one line. The first argument is the part of the line from index \<open>i\<close>
  on: the character \<open>c\<close> is \<open>line[i]\<close>, and \<open>line[i + 1]\<close> is the head of the rest \<open>cs\<close>
  when there is one (past the end of the line it is \<open>undefined\<close>, which is not the
  quote). The doubled-quote branch steps over two characters, every other branch over one.
\<close>

fun scan :: "string \<Rightarrow> scan_state \<Rightarrow> scan_state" where
  "scan [] s = s"
| "scan (c # cs) s =
     (if c = dquote \<and> cs \<noteq> [] \<and> hd cs = dquote
        then scan (tl cs) (s\<lparr>current := current s @ [dquote]\<rparr>)
      else if c = dquote
        then scan cs (s\<lparr>inQuotes := \<not> inQuotes s\<rparr>)
      else if c = comma \<and> \<not> inQuotes s
        then scan cs (s\<lparr>values := values s @ [trim (current s)], current := []\<rparr>)
      else scan cs (s\<lparr>current := current s @ [c]\<rparr>))"

text \<open>The body of the \<open>map\<close> callback: fresh variables, the loop, then the last push.\<close>

definition parseLine :: "string \<Rightarrow> string list" where
  "parseLine line = (let s = scan line scan_init in values s @ [trim (current s)])"

definition parseCSV :: "string \<Rightarrow> string list list" where
  "parseCSV csvText = map parseLine (split newline (trim csvText))"

subsection \<open>Quoted fields as the feed writes them\<close>

text \<open>
  A field written in quotes: the text between the delimiting quotes, with every quote of the
  field's content doubled. The properties of quoted fields below are stated for this input.
\<close>

definition escape_quotes :: "string \<Rightarrow> string" where
  "escape_quotes t = concat (map (\<lambda>c. if c = dquote then [dquote, dquote] else [c]) t)"

definition quote_field :: "string \<Rightarrow> string" where
  "quote_field t = dquote # escape_quotes t @ [dquote]"

text \<open>Lines put together with a newline between each two, the inverse of \<open>split('\n')\<close>.\<close>

fun join_lines :: "string list \<Rightarrow> string" where
  "join_lines [] = []"
| "join_lines [l] = l"
| "join_lines (l # ls) = l @ newline # join_lines ls"

subsection \<open>The scan as the specification words it\<close>

text \<open>
  The specification (section 4.1) gives the doubled-quote rule only for a position inside a
  quoted field: ``A doubled quote character while inside a quoted field emits one literal
  quote character and does not toggle the flag. Any other quote character toggles the
  flag.'' \<open>spec_scan\<close> follows these words; it differs from \<open>scan\<close> in the first test only.
\<close>

fun spec_scan :: "string \<Rightarrow> scan_state \<Rightarrow> scan_state" where
  "spec_scan [] s = s"
| "spec_scan (c # cs) s =
     (if c = dquote \<and> inQuotes s \<and> cs \<noteq> [] \<and> hd cs = dquote
        then spec_scan (tl cs) (s\<lparr>current := current s @ [dquote]\<rparr>)
      else if c = dquote
        then spec_scan cs (s\<lparr>inQuotes := \<not> inQuotes s\<rparr>)
      else if c = comma \<and> \<not> inQuotes s
        then spec_scan cs (s\<lparr>values := values s @ [trim (current s)], current := []\<rparr>)
      else spec_scan cs (s\<lparr>current := current s @ [c]\<rparr>))"

definition spec_parseLine :: "string \<Rightarrow> string list" where
  "spec_parseLine line = (let s = spec_scan line scan_init in values s @ [trim (current s)])"

section \<open>Feed ingestion: \<open>getNews\<close> (src/services/news.ts)\<close>

record NewsArticle =
  title :: string
  summary :: string
  url :: string
  source :: string
  category :: string
  imageUrl :: string
  date :: "string option"

text \<open>What the code writes to the console: \<open>console.warn\<close> and \<open>console.error\<close>.\<close>

datatype diagnostic = Warn string | Error string string

text \<open>
  An awaited promise either rejects (the \<open>await\<close> throws the error, here its message) or
  fulfils with a value. A response carries \<open>ok\<close>, \<open>statusText\<close> and the outcome of
  \<open>response.text()\<close>.
\<close>

datatype 'a settled = Rejected string | Fulfilled 'a

record response =
  ok :: bool
  statusText :: string
  "text" :: "string settled"

text \<open>A number inside a template literal: its decimal digits.\<close>

fun decimal :: "nat \<Rightarrow> string" where
  "decimal n = (if n < 10 then [''0123456789'' ! n]
                else decimal (n div 10) @ [''0123456789'' ! (n mod 10)])"

declare decimal.simps [simp del]

text \<open>\<open>row[i]\<close>: the element, or \<open>undefined\<close> (here \<open>None\<close>) from the length of the row on.\<close>

definition field :: "string list \<Rightarrow> nat \<Rightarrow> string option" where
  "field row i = (if i < length row then Some (row ! i) else None)"

text \<open>A string or \<open>undefined\<close> used as a condition: false for \<open>undefined\<close> and for \<open>''\<close>.\<close>

definition truthy :: "string option \<Rightarrow> bool" where
  "truthy v = (case v of None \<Rightarrow> False | Some x \<Rightarrow> x \<noteq> [])"

text \<open>\<open>v || d\<close> for a default string \<open>d\<close>, and \<open>v || undefined\<close>.\<close>

definition or_default :: "string option \<Rightarrow> string \<Rightarrow> string" where
  "or_default v d = (case v of None \<Rightarrow> d | Some x \<Rightarrow> if x \<noteq> [] then x else d)"

definition or_undefined :: "string option \<Rightarrow> string option" where
  "or_undefined v = (case v of None \<Rightarrow> None | Some x \<Rightarrow> if x \<noteq> [] then Some x else None)"

text \<open>
  \<open>xs.reduce(f, init)\<close> with the index passed to the callback. The accumulator of \<open>getNews\<close>
  is the article array; the model pairs it with the console, which the callback writes to.
\<close>

fun reduce :: "('b \<Rightarrow> 'a \<Rightarrow> nat \<Rightarrow> 'b) \<Rightarrow> 'b \<Rightarrow> 'a list \<Rightarrow> nat \<Rightarrow> 'b" where
  "reduce f acc [] index = acc"
| "reduce f acc (x # xs) index = reduce f (f acc x index) xs (Suc index)"

definition addRow ::
  "NewsArticle list \<times> diagnostic list \<Rightarrow> string list \<Rightarrow> nat \<Rightarrow> NewsArticle list \<times> diagnostic list"
where
  "addRow acc row index =
     (if truthy (field row 0) \<and> truthy (field row 4)
      then (fst acc @
              [\<lparr>title = or_default (field row 0) ''No Title'',
                summary = or_default (field row 3) ''No Summary'',
                url = or_default (field row 4) ''#'',
                source = or_default (field row 5) ''Unknown Source'',
                category = ''General'',
                imageUrl = or_default (field row 2) [],
                date = or_undefined (field row 1)\<rparr>],
            snd acc)
      else (fst acc,
            snd acc @
              [Warn (''Skipping row '' @ decimal (index + 2) @ '' due to missing title or URL.'')]))"

text \<open>
  \<open>getNews\<close>, given what \<open>fetch\<close> settles to: the returned array and the console output.
  Every throw inside the \<open>try\<close> block lands in the \<open>catch\<close> clause.
\<close>

definition getNews :: "response settled \<Rightarrow> NewsArticle list \<times> diagnostic list" where
  "getNews fetched =
     (case fetched of
        Rejected e \<Rightarrow> ([], [Error ''Error fetching or parsing news data:'' e])
      | Fulfilled response \<Rightarrow>
          if \<not> ok response
          then ([], [Error ''Error fetching or parsing news data:''
                       (''Failed to fetch CSV: '' @ statusText response)])
          else (case text response of
                  Rejected e \<Rightarrow> ([], [Error ''Error fetching or parsing news data:'' e])
                | Fulfilled csvText \<Rightarrow>
                    (let rows = parseCSV csvText;
                         dataRows = drop 1 rows
                     in reduce addRow ([], []) dataRows 0)))"

text \<open>
  The row test and the row mapping as section 4.1 of the specification states them, to
  compare \<open>getNews\<close> with.
\<close>

definition row_kept :: "string list \<Rightarrow> bool" where
  "row_kept row = (4 < length row \<and> row ! 0 \<noteq> [] \<and> row ! 4 \<noteq> [])"

definition article_of_row :: "string list \<Rightarrow> NewsArticle" where
  "article_of_row row =
     \<lparr>title = row ! 0,
      summary = (if row ! 3 = [] then ''No Summary'' else row ! 3),
      url = row ! 4,
      source = (if 5 < length row \<and> row ! 5 \<noteq> [] then row ! 5 else ''Unknown Source''),
      category = ''General'',
      imageUrl = row ! 2,
      date = (if row ! 1 = [] then None else Some (row ! 1))\<rparr>"

definition skip_warning :: "nat \<Rightarrow> diagnostic" where
  "skip_warning index =
     Warn (''Skipping row '' @ decimal (index + 2) @ '' due to missing title or URL.'')"

section \<open>Date normalizer: \<open>parseDateString\<close> (page, src/unnamed/part_000) and \<open>formatDate\<close> (src/components/news-article-card.tsx)\<close>

text \<open>
  A \<open>Date\<close> object is its time value: a number of milliseconds, or \<open>NaN\<close> for an
  \<open>Invalid Date\<close>. \<open>getTime\<close> returns the time value; \<open>isNaN\<close> is the test of the code.
\<close>

datatype jsdate = Invalid_Date | Date_at int

fun getTime :: "jsdate \<Rightarrow> int option" where
  "getTime Invalid_Date = None"
| "getTime (Date_at t) = Some t"

definition isNaN :: "int option \<Rightarrow> bool" where
  "isNaN v = (v = None)"

text \<open>A call inside a \<open>try\<close> block: it throws (the error's message) or returns.\<close>

datatype 'a outcome = Throws string | Returns 'a

text \<open>
  The functions both date helpers call and the repository does not define: \<open>parse\<close> and
  \<open>format\<close> of date-fns and the \<open>Date\<close> constructor on a string. They are parameters of
  the model. \<open>parse lib s f\<close> stands for \<open>parse(s, f, new Date())\<close>: the reference date
  only fills in what the format leaves open, and both formats used give year, month and day.
  The \<open>Date\<close> constructor does not throw on a string.
\<close>

record date_lib =
  parse :: "string \<Rightarrow> string \<Rightarrow> jsdate outcome"
  newDate :: "string \<Rightarrow> jsdate"
  format :: "jsdate \<Rightarrow> string \<Rightarrow> string outcome"

text \<open>What a date helper does besides returning: the library calls, in order, and the
  console output.\<close>

datatype event = Called_parse string string | Called_newDate string | Logged diagnostic

definition parseDateString :: "date_lib \<Rightarrow> string option \<Rightarrow> jsdate option \<times> event list" where
  "parseDateString lib dateString =
     (case dateString of
        None \<Rightarrow> (None, [])
      | Some ds \<Rightarrow>
          if ds = [] then (None, [])
          else
            (case parse lib ds ''M/d/yyyy'' of
               Throws e \<Rightarrow>
                 (None, [Called_parse ds ''M/d/yyyy'',
                         Logged (Error (''Error parsing date: '' @ ds) e)])
             | Returns parsed \<Rightarrow>
                 if \<not> isNaN (getTime parsed)
                 then (Some parsed, [Called_parse ds ''M/d/yyyy''])
                 else
                   (case parse lib ds ''yyyy-MM-dd'' of
                      Throws e \<Rightarrow>
                        (None, [Called_parse ds ''M/d/yyyy'', Called_parse ds ''yyyy-MM-dd'',
                                Logged (Error (''Error parsing date: '' @ ds) e)])
                    | Returns parsed \<Rightarrow>
                        if \<not> isNaN (getTime parsed)
                        then (Some parsed,
                              [Called_parse ds ''M/d/yyyy'', Called_parse ds ''yyyy-MM-dd''])
                        else
                          (let parsed = newDate lib ds in
                           if \<not> isNaN (getTime parsed)
                           then (Some parsed,
                                 [Called_parse ds ''M/d/yyyy'', Called_parse ds ''yyyy-MM-dd'',
                                  Called_newDate ds])
                           else (None,
                                 [Called_parse ds ''M/d/yyyy'', Called_parse ds ''yyyy-MM-dd'',
                                  Called_newDate ds,
                                  Logged (Warn (''Could not parse date for sorting: '' @ ds))])))))"

text \<open>
  \<open>formatDate\<close> makes the same three attempts in nested \<open>else\<close> branches, then formats the
  date it found; without one, and when anything throws, it returns the string it was given.
\<close>

definition formatDate :: "date_lib \<Rightarrow> string option \<Rightarrow> string option \<times> event list" where
  "formatDate lib dateString =
     (case dateString of
        None \<Rightarrow> (None, [])
      | Some ds \<Rightarrow>
          if ds = [] then (None, [])
          else
            (let failed = (\<lambda>e. Logged (Error (''Error formatting date: '' @ ds) e));
                 finish = (\<lambda>parsedDate calls.
                   case parsedDate of
                     None \<Rightarrow> (Some ds, calls @ [Logged (Warn (''Could not format date: '' @ ds))])
                   | Some d \<Rightarrow>
                       (case format lib d ''d MMM yyyy'' of
                          Throws e \<Rightarrow> (Some ds, calls @ [failed e])
                        | Returns s \<Rightarrow> (Some s, calls)))
             in
             case parse lib ds ''M/d/yyyy'' of
               Throws e \<Rightarrow> (Some ds, [Called_parse ds ''M/d/yyyy'', failed e])
             | Returns parsedMdy \<Rightarrow>
                 if \<not> isNaN (getTime parsedMdy)
                 then finish (Some parsedMdy) [Called_parse ds ''M/d/yyyy'']
                 else
                   (case parse lib ds ''yyyy-MM-dd'' of
                      Throws e \<Rightarrow>
                        (Some ds, [Called_parse ds ''M/d/yyyy'', Called_parse ds ''yyyy-MM-dd'',
                                   failed e])
                    | Returns parsedYmd \<Rightarrow>
                        if \<not> isNaN (getTime parsedYmd)
                        then finish (Some parsedYmd)
                               [Called_parse ds ''M/d/yyyy'', Called_parse ds ''yyyy-MM-dd'']
                        else
                          (let parsedIso = newDate lib ds in
                           finish (if \<not> isNaN (getTime parsedIso) then Some parsedIso else None)
                             [Called_parse ds ''M/d/yyyy'', Called_parse ds ''yyyy-MM-dd'',
                              Called_newDate ds]))))"

text \<open>
  The normalizer as section 4.2 and the design notes of the specification word it: an
  ordered list of attempts, each giving an instant or nothing, the first success deciding.
\<close>

definition spec_attempts :: "date_lib \<Rightarrow> string \<Rightarrow> jsdate outcome list" where
  "spec_attempts lib ds =
     [parse lib ds ''M/d/yyyy'', parse lib ds ''yyyy-MM-dd'', Returns (newDate lib ds)]"

definition valid_attempt :: "jsdate outcome \<Rightarrow> bool" where
  "valid_attempt a = (case a of Returns (Date_at t) \<Rightarrow> True | _ \<Rightarrow> False)"

definition spec_normalize :: "date_lib \<Rightarrow> string option \<Rightarrow> jsdate option" where
  "spec_normalize lib dateString =
     (case dateString of
        None \<Rightarrow> None
      | Some ds \<Rightarrow>
          (case find valid_attempt (spec_attempts lib ds) of
             Some (Returns d) \<Rightarrow> Some d
           | _ \<Rightarrow> None))"

section \<open>Ordering and partitioning: \<open>Home\<close> (page, src/unnamed/part_000)\<close>

text \<open>An article with the \<open>parsedDate\<close> the page adds to it.\<close>

record dated_article = NewsArticle +
  parsedDate :: "jsdate option"

definition with_parsedDate :: "NewsArticle \<Rightarrow> jsdate option \<Rightarrow> dated_article" where
  "with_parsedDate article d =
     \<lparr>title = title article, summary = summary article, url = url article,
      source = source article, category = category article, imageUrl = imageUrl article,
      date = date article, parsedDate = d\<rparr>"

text \<open>
  Modelled from the spec: \<open>compareDesc\<close> is imported from date-fns and its code is not under
  src/. Section 4.3 has the articles sorted ``descending by instant'', newest first: the
  comparator is negative when the left date is the later one, positive when it is the
  earlier one and zero for equal time values. With an \<open>Invalid Date\<close> the difference of
  the time values is \<open>NaN\<close>, which \<open>sort\<close> reads as zero.
\<close>

definition compareDesc :: "jsdate \<Rightarrow> jsdate \<Rightarrow> int" where
  "compareDesc dateLeft dateRight =
     (case (getTime dateLeft, getTime dateRight) of
        (Some l, Some r) \<Rightarrow> (if l - r > 0 then - 1 else if l - r < 0 then 1 else 0)
      | _ \<Rightarrow> 0)"

text \<open>
  \<open>Array.prototype.sort\<close> with a comparator. The language fixes the result for a
  consistent comparator, not the algorithm: the elements in an order the comparator agrees
  with, elements that compare equal in their original order. The model is the insertion
  sort with that result: each element, from the last to the first, goes in front of the
  first element it does not come after.
\<close>

fun insert_cmp :: "('a \<Rightarrow> 'a \<Rightarrow> int) \<Rightarrow> 'a \<Rightarrow> 'a list \<Rightarrow> 'a list" where
  "insert_cmp cmp x [] = [x]"
| "insert_cmp cmp x (y # ys) =
     (if cmp x y \<le> 0 then x # y # ys else y # insert_cmp cmp x ys)"

definition sort_js :: "('a \<Rightarrow> 'a \<Rightarrow> int) \<Rightarrow> 'a list \<Rightarrow> 'a list" where
  "sort_js cmp xs = foldr (insert_cmp cmp) xs []"

text \<open>\<open>xs.slice(start, stop)\<close> and \<open>xs.slice(start)\<close> for indices that are not negative.\<close>

definition slice :: "'a list \<Rightarrow> nat \<Rightarrow> nat \<Rightarrow> 'a list" where
  "slice xs start stop = take (stop - start) (drop start xs)"

definition slice_from :: "'a list \<Rightarrow> nat \<Rightarrow> 'a list" where
  "slice_from xs start = drop start xs"

definition sortedArticles :: "date_lib \<Rightarrow> NewsArticle list \<Rightarrow> dated_article list" where
  "sortedArticles lib allArticles =
     sort_js (\<lambda>a b. compareDesc (the (parsedDate a)) (the (parsedDate b)))
       (filter (\<lambda>article. parsedDate article \<noteq> None)
          (map (\<lambda>article. with_parsedDate article (fst (parseDateString lib (date article))))
             allArticles))"

text \<open>The lists \<open>Home\<close> renders from.\<close>

record home_view =
  newestArticles :: "dated_article list"
  mainArticle :: "dated_article option"
  sideArticles :: "dated_article list"
  remainingArticles :: "dated_article list"

definition Home :: "date_lib \<Rightarrow> NewsArticle list \<Rightarrow> home_view" where
  "Home lib allArticles =
     (let sorted = sortedArticles lib allArticles;
          newest = slice sorted 0 4
      in \<lparr>newestArticles = newest,
          mainArticle = (if length newest > 0 then Some (newest ! 0) else None),
          sideArticles = (if length newest > 1 then slice_from newest 1 else []),
          remainingArticles = slice_from sorted 4\<rparr>)"

section \<open>Card: image fallback (src/components/news-article-card.tsx)\<close>

datatype card_size = Large | Small | Default

fun getImageDimensions :: "card_size \<Rightarrow> nat \<times> nat" where
  "getImageDimensions Large = (800, 500)"
| "getImageDimensions Small = (400, 250)"
| "getImageDimensions Default = (600, 400)"

text \<open>
  The placeholder address, the template literal the component writes three times; \<open>sz\<close>
  is the \<open>size\<close> property of the card. The function \<open>encodeURIComponent\<close> of the
  language is a parameter.
\<close>

definition placeholder :: "(string \<Rightarrow> string) \<Rightarrow> NewsArticle \<Rightarrow> card_size \<Rightarrow> string" where
  "placeholder encodeURIComponent article sz =
     (case getImageDimensions sz of
        (width, height) \<Rightarrow>
          ''https://picsum.photos/seed/'' @ encodeURIComponent (title article) @ ''/'' @
          decimal width @ ''/'' @ decimal height)"

text \<open>The state slots of one card that the image and favicon handlers read and set.\<close>

record card_state =
  shownImageUrl :: string
  imageError :: bool
  faviconError :: bool

text \<open>The state a card starts in: \<open>article.imageUrl || placeholder\<close>, no error yet.\<close>

definition initial_card :: "(string \<Rightarrow> string) \<Rightarrow> NewsArticle \<Rightarrow> card_size \<Rightarrow> card_state" where
  "initial_card encodeURIComponent article sz =
     \<lparr>shownImageUrl =
        (if imageUrl article \<noteq> [] then imageUrl article
         else placeholder encodeURIComponent article sz),
      imageError = False, faviconError = False\<rparr>"

text \<open>The calls of state setters a handler makes, and what they do to the state.\<close>

datatype setter_call = SetImageUrl string | SetImageError bool | SetFaviconError bool

fun apply_call :: "setter_call \<Rightarrow> card_state \<Rightarrow> card_state" where
  "apply_call (SetImageUrl u) st = st\<lparr>shownImageUrl := u\<rparr>"
| "apply_call (SetImageError b) st = st\<lparr>imageError := b\<rparr>"
| "apply_call (SetFaviconError b) st = st\<lparr>faviconError := b\<rparr>"

definition handleImageError ::
  "(string \<Rightarrow> string) \<Rightarrow> NewsArticle \<Rightarrow> card_size \<Rightarrow> card_state \<Rightarrow> setter_call list"
where
  "handleImageError encodeURIComponent article sz st =
     (if \<not> imageError st
      then [SetImageUrl (placeholder encodeURIComponent article sz), SetImageError True]
      else [])"

definition handleFaviconError :: "card_state \<Rightarrow> setter_call list" where
  "handleFaviconError st = [SetFaviconError True]"

text \<open>
  A run of \<open>n\<close> load failures of the card's image, one after the other: the state after
  them and all setter calls made.
\<close>

fun image_failures ::
  "(string \<Rightarrow> string) \<Rightarrow> NewsArticle \<Rightarrow> card_size \<Rightarrow> nat \<Rightarrow> card_state \<Rightarrow> card_state \<times> setter_call list"
where
  "image_failures enc article sz 0 st = (st, [])"
| "image_failures enc article sz (Suc n) st =
     (let calls = handleImageError enc article sz st;
          (st', later) = image_failures enc article sz n (fold apply_call calls st)
      in (st', calls @ later))"

section \<open>Notions the properties are stated with\<close>

text \<open>The instant an article of the sorted list carries: the time value of its parsed date.\<close>

definition instant :: "dated_article \<Rightarrow> int" where
  "instant a = (case parsedDate a of Some (Date_at t) \<Rightarrow> t | _ \<Rightarrow> 0)"

text \<open>A comparator is not positive exactly when the left key is not below the right key.\<close>

definition agrees :: "('a \<Rightarrow> 'a \<Rightarrow> int) \<Rightarrow> ('a \<Rightarrow> int) \<Rightarrow> 'a set \<Rightarrow> bool" where
  "agrees cmp k A = (\<forall>x\<in>A. \<forall>y\<in>A. (cmp x y \<le> 0) = (k y \<le> k x))"

section \<open>The date formats of the specification\<close>

text \<open>
  Modelled from the spec: \<open>parse\<close> of date-fns and the parsing \<open>Date\<close> constructor are not
  under src/. Section 4.2 of the specification names what they accept: the format
  ``month/day/4-digit-year'', the format ``4-digit-year-2-digit-month-2-digit-day'', and a
  generic parse of full timestamps such as \<open>2025-05-04 20:50:13\<close>. A date of the first two
  formats is read as the start of that day. An instant is counted in milliseconds of local
  civil time from the start of 1 January 1970, so the calendar day of an instant is its
  number of whole days.
\<close>

definition is_digit :: "char \<Rightarrow> bool" where
  "is_digit c = (c \<in> set ''0123456789'')"

definition nat_of_digits :: "string \<Rightarrow> nat" where
  "nat_of_digits s = foldl (\<lambda>n c. 10 * n + (of_char c - 48)) 0 s"

text \<open>A number written with at least \<open>lo\<close> and at most \<open>hi\<close> digits and nothing else.\<close>

definition number :: "nat \<Rightarrow> nat \<Rightarrow> string \<Rightarrow> nat option" where
  "number lo hi s =
     (if lo \<le> length s \<and> length s \<le> hi \<and> list_all is_digit s
      then Some (nat_of_digits s) else None)"

definition leap_year :: "nat \<Rightarrow> bool" where
  "leap_year y = ((y mod 4 = 0 \<and> y mod 100 \<noteq> 0) \<or> y mod 400 = 0)"

definition days_in_month :: "nat \<Rightarrow> nat \<Rightarrow> nat" where
  "days_in_month y m =
     (if m = 2 then (if leap_year y then 29 else 28)
      else if m = 4 \<or> m = 6 \<or> m = 9 \<or> m = 11 then 30 else 31)"

text \<open>The number of days from 1 January 1970 to a day of the Gregorian calendar.\<close>

definition days_from_civil :: "nat \<Rightarrow> nat \<Rightarrow> nat \<Rightarrow> int" where
  "days_from_civil y m d =
     (let y' = (if m \<le> 2 then int y - 1 else int y);
          era = y' div 400;
          yoe = y' - era * 400;
          mp = (if m > 2 then int m - 3 else int m + 9);
          doy = (153 * mp + 2) div 5 + int d - 1;
          doe = yoe * 365 + yoe div 4 - yoe div 100 + doy
      in era * 146097 + doe - 719468)"

definition civil_date :: "nat \<Rightarrow> nat \<Rightarrow> nat \<Rightarrow> nat \<Rightarrow> nat \<Rightarrow> nat \<Rightarrow> jsdate" where
  "civil_date y m d hh mm ss =
     (if 1 \<le> m \<and> m \<le> 12 \<and> 1 \<le> d \<and> d \<le> days_in_month y m \<and> hh < 24 \<and> mm < 60 \<and> ss < 60
      then Date_at ((((days_from_civil y m d * 24 + int hh) * 60 + int mm) * 60 + int ss) * 1000)
      else Invalid_Date)"

definition calendar_day :: "jsdate \<Rightarrow> int option" where
  "calendar_day d = (case d of Invalid_Date \<Rightarrow> None | Date_at t \<Rightarrow> Some (t div 86400000))"

definition spec_parse :: "string \<Rightarrow> string \<Rightarrow> jsdate outcome" where
  "spec_parse ds fmt =
     Returns
       (if fmt = ''M/d/yyyy'' then
          (case split (CHR ''/'') ds of
             [m, d, y] \<Rightarrow>
               (case (number 1 2 m, number 1 2 d, number 4 4 y) of
                  (Some m', Some d', Some y') \<Rightarrow> civil_date y' m' d' 0 0 0
                | _ \<Rightarrow> Invalid_Date)
           | _ \<Rightarrow> Invalid_Date)
        else if fmt = ''yyyy-MM-dd'' then
          (case split (CHR ''-'') ds of
             [y, m, d] \<Rightarrow>
               (case (number 4 4 y, number 2 2 m, number 2 2 d) of
                  (Some y', Some m', Some d') \<Rightarrow> civil_date y' m' d' 0 0 0
                | _ \<Rightarrow> Invalid_Date)
           | _ \<Rightarrow> Invalid_Date)
        else Invalid_Date)"

definition spec_newDate :: "string \<Rightarrow> jsdate" where
  "spec_newDate ds =
     (case split (CHR '' '') ds of
        [day, time] \<Rightarrow>
          (case (split (CHR ''-'') day, split (CHR '':'') time) of
             ([y, m, d], [hh, mm, ss]) \<Rightarrow>
               (case (number 4 4 y, number 2 2 m, number 2 2 d,
                      number 2 2 hh, number 2 2 mm, number 2 2 ss) of
                  (Some y', Some m', Some d', Some hh', Some mm', Some ss') \<Rightarrow>
                    civil_date y' m' d' hh' mm' ss'
                | _ \<Rightarrow> Invalid_Date)
           | _ \<Rightarrow> Invalid_Date)
      | _ \<Rightarrow> Invalid_Date)"

definition spec_lib :: date_lib where
  "spec_lib = \<lparr>parse = spec_parse, newDate = spec_newDate, format = (\<lambda>d f. Returns [])\<rparr>"

section \<open>Properties of the feed parser\<close>

subsection \<open>White space and trimming\<close>

lemma comma_neq_dquote [simp]: "comma \<noteq> dquote" "dquote \<noteq> comma"
  by (simp_all add: comma_def dquote_def)

lemma not_ws_dquote [simp]: "\<not> is_ws dquote"
  by (simp add: is_ws_def dquote_def)

lemma dropWhile_fix: "xs = [] \<or> \<not> P (hd xs) \<Longrightarrow> dropWhile P xs = xs"
  by (cases xs) auto

lemma dropWhile_head: "dropWhile P xs = [] \<or> \<not> P (hd (dropWhile P xs))"
  using hd_dropWhile by blast

lemma rev_dropWhile_rev_head:
  assumes "ys = [] \<or> \<not> P (hd ys)"
  shows "rev (dropWhile P (rev ys)) = [] \<or> \<not> P (hd (rev (dropWhile P (rev ys))))"
proof -
  define r where "r = rev (dropWhile P (rev ys))"
  define t where "t = rev (takeWhile P (rev ys))"
  have "rev ys = takeWhile P (rev ys) @ dropWhile P (rev ys)" by simp
  then have "rev (rev ys) = rev (takeWhile P (rev ys) @ dropWhile P (rev ys))" by simp
  then have "ys = r @ t"
    unfolding r_def t_def by (simp only: rev_append rev_rev_ident)
  then have "r \<noteq> [] \<Longrightarrow> hd r = hd ys \<and> ys \<noteq> []" by simp
  then have "r = [] \<or> \<not> P (hd r)" using assms by (cases "r = []") auto
  then show ?thesis unfolding r_def .
qed

lemma trim_trim: "trim (trim s) = trim s"
proof -
  let ?r = "rev (dropWhile is_ws (rev (dropWhile is_ws s)))"
  have "?r = [] \<or> \<not> is_ws (hd ?r)"
    by (rule rev_dropWhile_rev_head) (rule dropWhile_head)
  then have 1: "dropWhile is_ws ?r = ?r" by (rule dropWhile_fix)
  have 2: "dropWhile is_ws (rev ?r) = rev ?r" by simp
  show ?thesis unfolding trim_def 1 2 by simp
qed

lemma trim_fix: "s = [] \<or> (\<not> is_ws (hd s) \<and> \<not> is_ws (last s)) \<Longrightarrow> trim s = s"
proof -
  assume a: "s = [] \<or> (\<not> is_ws (hd s) \<and> \<not> is_ws (last s))"
  then have 1: "dropWhile is_ws s = s" by (intro dropWhile_fix) auto
  from a have 2: "dropWhile is_ws (rev s) = rev s" by (intro dropWhile_fix) (auto simp: hd_rev)
  show ?thesis unfolding trim_def 1 2 by simp
qed

lemma trim_replicate_dquote: "trim (replicate k dquote) = replicate k dquote"
  by (rule trim_fix) (cases k; simp)

subsection \<open>Steps of the scan\<close>

lemma scan_doubled:
  "scan (dquote # dquote # rest) s = scan rest (s\<lparr>current := current s @ [dquote]\<rparr>)"
  by simp

lemma scan_single:
  "rest = [] \<or> hd rest \<noteq> dquote \<Longrightarrow>
   scan (dquote # rest) s = scan rest (s\<lparr>inQuotes := \<not> inQuotes s\<rparr>)"
  by auto

lemma scan_plain:
  "dquote \<notin> set xs \<Longrightarrow> comma \<notin> set xs \<or> inQuotes s \<Longrightarrow>
   scan (xs @ ys) s = scan ys (s\<lparr>current := current s @ xs\<rparr>)"
  by (induction xs arbitrary: s) auto

lemma last_tl: "tl cs \<noteq> [] \<Longrightarrow> last (tl cs) = last cs"
  by (cases cs) auto

text \<open>
  A line may be cut after any character but a quote: the scan of the whole line is the scan
  of the second part from the state the first part leaves. (After a quote the cut could
  separate the two halves of a doubled quote.)
\<close>

lemma scan_append:
  "pre = [] \<or> last pre \<noteq> dquote \<Longrightarrow> scan (pre @ rest) s = scan rest (scan pre s)"
proof (induction pre s rule: scan.induct)
  case (1 s)
  show ?case by simp
next
  case (2 c cs s)
  show ?case
  proof (cases cs)
    case Nil
    with "2.prems" have "c \<noteq> dquote" by simp
    with Nil show ?thesis by simp
  next
    case (Cons d ds)
    with "2.prems" have l: "last cs \<noteq> dquote" by simp
    have d: "tl cs = [] \<or> last (tl cs) \<noteq> dquote"
      using l last_tl[of cs] by auto
    have c: "cs = [] \<or> last cs \<noteq> dquote" using l by simp
    show ?thesis
      using "2.IH"(1)[OF _ d] "2.IH"(2)[OF _ _ c] "2.IH"(3)[OF _ _ _ c] "2.IH"(4)[OF _ _ _ c]
      by (simp add: Cons)
  qed
qed

lemma scan_quote_pairs:
  "scan (replicate (2 * k) dquote @ rest) s =
   scan rest (s\<lparr>current := current s @ replicate k dquote\<rparr>)"
proof (induction k arbitrary: s)
  case 0
  show ?case by simp
next
  case (Suc k)
  show ?case using Suc[of "s\<lparr>current := current s @ [dquote]\<rparr>"]
    by (simp add: replicate_append_same)
qed

subsection \<open>Quoted fields\<close>

lemma escape_Nil [simp]: "escape_quotes [] = []"
  by (simp add: escape_quotes_def)

lemma escape_Cons [simp]:
  "escape_quotes (c # t) =
     (if c = dquote then dquote # dquote # escape_quotes t else c # escape_quotes t)"
  by (simp add: escape_quotes_def)

lemma escape_append: "escape_quotes (a @ b) = escape_quotes a @ escape_quotes b"
  by (simp add: escape_quotes_def)

lemma escape_replicate: "escape_quotes (replicate k dquote) = replicate (2 * k) dquote"
  by (induction k) auto

text \<open>Inside a quoted field every doubled quote gives one quote, and the closing quote
  leaves the field.\<close>

lemma scan_escaped_inside:
  "inQuotes s \<Longrightarrow> rest = [] \<or> hd rest \<noteq> dquote \<Longrightarrow>
   scan (escape_quotes t @ dquote # rest) s =
   scan rest (s\<lparr>current := current s @ t, inQuotes := False\<rparr>)"
proof (induction t arbitrary: s)
  case Nil
  then show ?case by auto
next
  case (Cons c t)
  show ?case
  proof (cases "c = dquote")
    case True
    then show ?thesis
      using Cons.IH[of "s\<lparr>current := current s @ [dquote]\<rparr>"] Cons.prems by simp
  next
    case False
    then show ?thesis
      using Cons.IH[of "s\<lparr>current := current s @ [c]\<rparr>"] Cons.prems by simp
  qed
qed

lemma split_leading_quotes:
  "\<exists>c\<in>set t. c \<noteq> dquote \<Longrightarrow> \<exists>k c u. t = replicate k dquote @ c # u \<and> c \<noteq> dquote"
proof (induction t)
  case Nil
  then show ?case by simp
next
  case (Cons a t)
  show ?case
  proof (cases "a = dquote")
    case True
    with Cons.prems have "\<exists>c\<in>set t. c \<noteq> dquote" by simp
    from Cons.IH[OF this] obtain k c u
      where "t = replicate k dquote @ c # u" "c \<noteq> dquote" by blast
    then have "a # t = replicate (Suc k) dquote @ c # u \<and> c \<noteq> dquote" using True by simp
    then show ?thesis by blast
  next
    case False
    then have "a # t = replicate 0 dquote @ a # t \<and> a \<noteq> dquote" by simp
    then show ?thesis by blast
  qed
qed

lemma scan_quote_field:
  assumes t: "\<exists>c\<in>set t. c \<noteq> dquote"
    and s: "\<not> inQuotes s"
    and r: "rest = [] \<or> hd rest \<noteq> dquote"
  shows "scan (quote_field t @ rest) s = scan rest (s\<lparr>current := current s @ t\<rparr>)"
proof -
  from split_leading_quotes[OF t] obtain k c u
    where tk: "t = replicate k dquote @ c # u" and c: "c \<noteq> dquote" by blast
  let ?s1 = "s\<lparr>current := current s @ replicate k dquote\<rparr>"
  let ?s2 = "?s1\<lparr>inQuotes := True\<rparr>"
  have "quote_field t @ rest =
        replicate (2 * k) dquote @ (dquote # (escape_quotes (c # u) @ dquote # rest))"
    unfolding quote_field_def tk escape_append escape_replicate
    by (simp add: replicate_append_same)
  then have "scan (quote_field t @ rest) s =
             scan (dquote # (escape_quotes (c # u) @ dquote # rest)) ?s1"
    by (simp only: scan_quote_pairs)
  also have "\<dots> = scan (escape_quotes (c # u) @ dquote # rest) ?s2"
    using c s by simp
  also have "\<dots> = scan rest (?s2\<lparr>current := current ?s2 @ c # u, inQuotes := False\<rparr>)"
    by (rule scan_escaped_inside) (use r in simp_all)
  also have "?s2\<lparr>current := current ?s2 @ c # u, inQuotes := False\<rparr> =
             s\<lparr>current := current s @ t\<rparr>"
    using s tk by simp
  finally show ?thesis .
qed

lemma parseLine_quote_field:
  "\<exists>c\<in>set t. c \<noteq> dquote \<Longrightarrow> parseLine (quote_field t) = [trim t]"
  using scan_quote_field[of t scan_init "[]"]
  by (simp add: parseLine_def scan_init_def)

lemma parseLine_quote_field_only_quotes:
  "parseLine (quote_field (replicate k dquote)) = [replicate (Suc k) dquote]"
proof -
  have "quote_field (replicate k dquote) = replicate (2 * Suc k) dquote @ []"
    unfolding quote_field_def escape_replicate by (simp add: replicate_append_same)
  then have "scan (quote_field (replicate k dquote)) scan_init
      = scan_init\<lparr>current := current scan_init @ replicate (Suc k) dquote\<rparr>"
    by (simp only: scan_quote_pairs scan.simps)
  then show ?thesis
    using trim_replicate_dquote[of "Suc k"]
    by (simp add: parseLine_def scan_init_def del: replicate_Suc)
qed

lemma spec_scan_escaped_inside:
  "inQuotes s \<Longrightarrow> rest = [] \<or> hd rest \<noteq> dquote \<Longrightarrow>
   spec_scan (escape_quotes t @ dquote # rest) s =
   spec_scan rest (s\<lparr>current := current s @ t, inQuotes := False\<rparr>)"
proof (induction t arbitrary: s)
  case Nil
  then show ?case by auto
next
  case (Cons c t)
  show ?case
  proof (cases "c = dquote")
    case True
    then show ?thesis
      using Cons.IH[of "s\<lparr>current := current s @ [dquote]\<rparr>"] Cons.prems by simp
  next
    case False
    then show ?thesis
      using Cons.IH[of "s\<lparr>current := current s @ [c]\<rparr>"] Cons.prems by simp
  qed
qed

lemma spec_parseLine_quote_field: "spec_parseLine (quote_field t) = [trim t]"
  using spec_scan_escaped_inside[of "scan_init\<lparr>inQuotes := True\<rparr>" "[]" t]
  by (simp add: spec_parseLine_def quote_field_def scan_init_def)

subsection \<open>Lines\<close>

lemma split_not_Nil [simp]: "split sep s \<noteq> []"
  by (induction s) (auto split: list.splits)

lemma split_pieces: "l \<in> set (split sep s) \<Longrightarrow> sep \<notin> set l"
proof (induction s arbitrary: l)
  case Nil
  then show ?case by simp
next
  case (Cons c s)
  obtain p ps where ps: "split sep s = p # ps" by (cases "split sep s") auto
  show ?case using Cons ps by (auto split: if_splits)
qed

lemma split_line: "sep \<notin> set l \<Longrightarrow> split sep l = [l]"
  by (induction l) auto

lemma split_append: "sep \<notin> set l \<Longrightarrow> split sep (l @ sep # s) = l # split sep s"
  by (induction l) auto

lemma split_join:
  "ls \<noteq> [] \<Longrightarrow> \<forall>l\<in>set ls. newline \<notin> set l \<Longrightarrow> split newline (join_lines ls) = ls"
proof (induction ls rule: join_lines.induct)
  case 1
  then show ?case by simp
next
  case (2 l)
  then show ?case by (simp add: split_line)
next
  case (3 l v va)
  then show ?case by (simp add: split_append)
qed

lemma join_split: "join_lines (split newline s) = s"
proof (induction s)
  case Nil
  show ?case by simp
next
  case (Cons c s)
  obtain p ps where ps: "split newline s = p # ps" by (cases "split newline s") auto
  show ?case using Cons ps by (cases ps) auto
qed

subsection \<open>Rows\<close>

lemma scan_values_trimmed:
  "set (values s) \<subseteq> range trim \<Longrightarrow> set (values (scan l s)) \<subseteq> range trim"
proof (induction l s rule: scan.induct)
  case (1 s)
  then show ?case by simp
next
  case (2 c cs s)
  then show ?case by simp
qed

lemma parseLine_fields_trimmed: "f \<in> set (parseLine l) \<Longrightarrow> trim f = f"
proof -
  assume "f \<in> set (parseLine l)"
  then have "f \<in> range trim"
    using scan_values_trimmed[of scan_init l]
    by (auto simp: parseLine_def Let_def scan_init_def)
  then show ?thesis by (auto simp: trim_trim)
qed

lemma parseLine_not_Nil [simp]: "parseLine l \<noteq> []"
  by (simp add: parseLine_def Let_def)

lemma parseCSV_not_Nil [simp]: "parseCSV t \<noteq> []"
  by (simp add: parseCSV_def)

lemma parseLine_unterminated:
  "dquote \<notin> set body \<Longrightarrow> parseLine (dquote # body) = [trim body]"
  using scan_plain[of body "scan_init\<lparr>inQuotes := True\<rparr>" "[]"]
  by (cases body) (auto simp: parseLine_def scan_init_def)

text \<open>
  Claim C10. \<open>parseCSV\<close> parses every line on its own. The rows of any text are its
  lines, the pieces of the trimmed text between the newlines, each parsed by a scan that
  starts with no field pushed, an empty current field and the inside-quoted-field flag
  false, so nothing of one line reaches the next. Put the other way round: for lines
  without a newline, joined by newlines into a text that \<open>trim\<close> leaves as it is, the rows
  are the lines parsed one by one. A line whose
  quoted field is never closed still gives its accumulated text, trimmed, as its last field.
  The empty line gives the row of one empty field, the result has at least one row, and no
  row of any result is empty.
\<close>

theorem parseCSV_lines_independent:
  "parseCSV t =
      map (\<lambda>l. let s = scan l \<lparr>values = [], current = [], inQuotes = False\<rparr>
               in values s @ [trim (current s)]) (split newline (trim t))
   \<and> join_lines (split newline (trim t)) = trim t
   \<and> (\<forall>l\<in>set (split newline (trim t)). newline \<notin> set l)
   \<and> (ls \<noteq> [] \<and> (\<forall>l\<in>set ls. newline \<notin> set l) \<and> trim (join_lines ls) = join_lines ls \<longrightarrow>
      parseCSV (join_lines ls) =
      map (\<lambda>l. let s = scan l \<lparr>values = [], current = [], inQuotes = False\<rparr>
               in values s @ [trim (current s)]) ls)
   \<and> (dquote \<notin> set body \<longrightarrow> parseLine (dquote # body) = [trim body])
   \<and> parseLine [] = [[]]
   \<and> parseCSV t \<noteq> []
   \<and> (\<forall>row\<in>set (parseCSV t). row \<noteq> [])"
proof (intro conjI impI)
  show "parseCSV t =
      map (\<lambda>l. let s = scan l \<lparr>values = [], current = [], inQuotes = False\<rparr>
               in values s @ [trim (current s)]) (split newline (trim t))"
    by (simp add: parseCSV_def parseLine_def scan_init_def)
next
  show "join_lines (split newline (trim t)) = trim t"
    by (rule join_split)
next
  show "\<forall>l\<in>set (split newline (trim t)). newline \<notin> set l"
    using split_pieces by blast
next
  assume a: "ls \<noteq> [] \<and> (\<forall>l\<in>set ls. newline \<notin> set l) \<and> trim (join_lines ls) = join_lines ls"
  then have "split newline (trim (join_lines ls)) = ls" by (simp add: split_join)
  then show "parseCSV (join_lines ls) =
      map (\<lambda>l. let s = scan l \<lparr>values = [], current = [], inQuotes = False\<rparr>
               in values s @ [trim (current s)]) ls"
    by (simp add: parseCSV_def parseLine_def scan_init_def)
next
  assume "dquote \<notin> set body"
  then show "parseLine (dquote # body) = [trim body]" by (rule parseLine_unterminated)
next
  show "parseLine [] = [[]]" by (simp add: parseLine_def scan_init_def trim_def)
next
  show "parseCSV t \<noteq> []" by simp
next
  show "\<forall>row\<in>set (parseCSV t). row \<noteq> []" by (auto simp: parseCSV_def)
qed

text \<open>
  The theorem at a text of four lines: the first opens a quoted field and never closes it,
  the third is empty.
\<close>

theorem parseCSV_lines_independent_witness:
  "parseCSV (join_lines [dquote # ''a,b'', ''c,d'', [], ''e'']) =
     [[''a,b''], [''c'', ''d''], [[]], [''e'']]
   \<and> parseLine (dquote # ''a,b'') = [''a,b'']
   \<and> [] \<notin> set (parseCSV (join_lines [dquote # ''a,b'', ''c,d'', [], ''e'']))"
proof -
  let ?ls = "[dquote # ''a,b'', ''c,d'', [], ''e'']"
  have h1: "?ls \<noteq> [] \<and> (\<forall>l\<in>set ?ls. newline \<notin> set l) \<and>
            trim (join_lines ?ls) = join_lines ?ls"
    by code_simp
  have h2: "dquote \<notin> set ''a,b''"
    by code_simp
  have e1: "map (\<lambda>l. let s = scan l \<lparr>values = [], current = [], inQuotes = False\<rparr>
               in values s @ [trim (current s)]) ?ls = [[''a,b''], [''c'', ''d''], [[]], [''e'']]"
    by code_simp
  have e2: "trim ''a,b'' = ''a,b''"
    by code_simp
  show ?thesis
    using parseCSV_lines_independent
            [where ls = ?ls and body = "''a,b''" and t = "join_lines ?ls"] h1 h2
    unfolding e1 e2 by blast
qed

subsection \<open>Doubled quotes\<close>

lemma parseLine_empty_quoted_between:
  assumes "dquote \<notin> set f" "comma \<notin> set f" "dquote \<notin> set g" "comma \<notin> set g"
  shows "parseLine (f @ [comma, dquote, dquote, comma] @ g) = [trim f, [dquote], trim g]"
proof -
  let ?s1 = "scan_init\<lparr>current := f\<rparr>"
  let ?s4 = "scan_init\<lparr>values := [trim f, [dquote]], current := []\<rparr>"
  have "scan (f @ [comma, dquote, dquote, comma] @ g) scan_init
        = scan ([comma, dquote, dquote, comma] @ g) ?s1"
    using scan_plain[of f scan_init] assms by (simp add: scan_init_def)
  also have "\<dots> = scan (g @ []) ?s4"
    by (simp add: scan_init_def trim_replicate_dquote[of 1, simplified])
  also have "\<dots> = ?s4\<lparr>current := g\<rparr>"
    using scan_plain[of g ?s4 "[]"] assms by (simp add: scan_init_def)
  finally show ?thesis by (simp add: parseLine_def scan_init_def)
qed

text \<open>
  Claim C9. The doubled-quote test of \<open>parseCSV\<close> does not look at the flag. When the scan
  stands outside a quoted field before two quotes, it puts one quote into the current field,
  steps over both and stays outside a quoted field; this holds in any state of the loop, and
  in particular after any beginning of a line that does not end in a quote and leaves the
  scan outside a quoted field. So an empty quoted field between two plain fields is read as
  the field of one quote, and the line of two quotes gives the row of that one field, not
  the row of the empty field.
\<close>

theorem doubled_quote_outside_quoted_field:
  "(\<not> inQuotes s \<longrightarrow>
      scan (dquote # dquote # rest) s = scan rest (s\<lparr>current := current s @ [dquote]\<rparr>)
      \<and> \<not> inQuotes (s\<lparr>current := current s @ [dquote]\<rparr>))
   \<and> ((pre = [] \<or> last pre \<noteq> dquote) \<and> \<not> inQuotes (scan pre scan_init) \<longrightarrow>
      scan (pre @ dquote # dquote # rest) scan_init =
        scan rest ((scan pre scan_init)\<lparr>current := current (scan pre scan_init) @ [dquote]\<rparr>))
   \<and> (dquote \<notin> set f \<and> comma \<notin> set f \<and> dquote \<notin> set g \<and> comma \<notin> set g \<longrightarrow>
      parseLine (f @ [comma, dquote, dquote, comma] @ g) = [trim f, [dquote], trim g])
   \<and> parseLine [dquote, dquote] = [[dquote]]
   \<and> parseLine [dquote, dquote] \<noteq> [[]]"
proof (intro conjI impI)
  show "scan (dquote # dquote # rest) s = scan rest (s\<lparr>current := current s @ [dquote]\<rparr>)"
    by (rule scan_doubled)
next
  assume "\<not> inQuotes s"
  then show "\<not> inQuotes (s\<lparr>current := current s @ [dquote]\<rparr>)" by simp
next
  assume a: "(pre = [] \<or> last pre \<noteq> dquote) \<and> \<not> inQuotes (scan pre scan_init)"
  then have "scan (pre @ dquote # dquote # rest) scan_init
             = scan (dquote # dquote # rest) (scan pre scan_init)"
    by (intro scan_append) simp
  then show "scan (pre @ dquote # dquote # rest) scan_init =
        scan rest ((scan pre scan_init)\<lparr>current := current (scan pre scan_init) @ [dquote]\<rparr>)"
    by (simp only: scan_doubled)
next
  assume "dquote \<notin> set f \<and> comma \<notin> set f \<and> dquote \<notin> set g \<and> comma \<notin> set g"
  then show "parseLine (f @ [comma, dquote, dquote, comma] @ g) = [trim f, [dquote], trim g]"
    by (intro parseLine_empty_quoted_between) simp_all
next
  have e: "parseLine [dquote, dquote] = [[dquote]]"
    using parseLine_quote_field_only_quotes[of 0] by (simp add: quote_field_def)
  show "parseLine [dquote, dquote] = [[dquote]]" by (rule e)
  show "parseLine [dquote, dquote] \<noteq> [[]]" unfolding e by simp
qed

text \<open>The theorem at the line \<open>a,"",b\<close>: three fields, the second the one quote.\<close>

theorem doubled_quote_outside_quoted_field_witness:
  "scan (''a,'' @ dquote # dquote # '',b'') scan_init =
     scan '',b'' \<lparr>values = [''a''], current = [dquote], inQuotes = False\<rparr>
   \<and> parseLine (''a'' @ [comma, dquote, dquote, comma] @ ''b'') = [''a'', [dquote], ''b'']
   \<and> parseLine [dquote, dquote] = [[dquote]]"
proof -
  have h1: "(''a,'' = [] \<or> last ''a,'' \<noteq> dquote) \<and> \<not> inQuotes (scan ''a,'' scan_init)"
    by code_simp
  have h2: "dquote \<notin> set ''a'' \<and> comma \<notin> set ''a'' \<and> dquote \<notin> set ''b'' \<and> comma \<notin> set ''b''"
    by code_simp
  have e1: "(scan ''a,'' scan_init)\<lparr>current := current (scan ''a,'' scan_init) @ [dquote]\<rparr>
            = \<lparr>values = [''a''], current = [dquote], inQuotes = False\<rparr>"
    by code_simp
  have e2: "trim ''a'' = ''a''" "trim ''b'' = ''b''"
    by code_simp+
  show ?thesis
    using doubled_quote_outside_quoted_field[of scan_init "'',b''" "''a,''" "''a''" "''b''"] h1 h2
    unfolding e1 e2 by blast
qed

text \<open>
  Claim C1. Inside a quoted field the code does what the claim says (\<open>scan_escaped_inside\<close>),
  and a quoted field decodes to its content, trimmed, as soon as the content has one
  character that is not a quote (\<open>parseLine_quote_field\<close>). The claim fails for a quoted
  field whose content is only quotes: the opening quote is itself followed by a quote, the
  test of the doubled quote does not ask for the flag, and so the opening quote is taken
  for the first half of a doubled quote (\<open>parseLine_quote_field_only_quotes\<close>). The
  theorem runs the code on the quoted field that holds one doubled quote, the four
  characters \<open>""""\<close>: the code returns the field of two quotes, where the scan as the
  specification words it returns the field of one quote.
\<close>

theorem parseCSV_quoted_quote_only:
  "quote_field [dquote] = [dquote, dquote, dquote, dquote]
   \<and> parseCSV [dquote, dquote, dquote, dquote] = [[[dquote, dquote]]]
   \<and> map spec_parseLine (split newline (trim [dquote, dquote, dquote, dquote])) = [[[dquote]]]"
  by code_simp

section \<open>Properties of the ingestion\<close>

lemma truthy_field: "truthy (field row i) \<longleftrightarrow> i < length row \<and> row ! i \<noteq> []"
  by (simp add: truthy_def field_def)

lemma kept_iff: "truthy (field row 0) \<and> truthy (field row 4) \<longleftrightarrow> row_kept row"
  by (auto simp: truthy_field row_kept_def)

lemma addRow_kept:
  "row_kept row \<Longrightarrow> addRow acc row index = (fst acc @ [article_of_row row], snd acc)"
  unfolding addRow_def kept_iff
  by (auto simp: row_kept_def article_of_row_def field_def or_default_def or_undefined_def)

lemma addRow_skipped:
  "\<not> row_kept row \<Longrightarrow> addRow acc row index = (fst acc, snd acc @ [skip_warning index])"
  unfolding addRow_def kept_iff by (simp add: skip_warning_def)

lemma reduce_addRow:
  "reduce addRow (as, ds) rows i =
     (as @ map article_of_row (filter row_kept rows),
      ds @ map (skip_warning \<circ> fst) (filter (\<lambda>p. \<not> row_kept (snd p)) (enumerate i rows)))"
proof (induction rows arbitrary: as ds i)
  case Nil
  show ?case by simp
next
  case (Cons row rows)
  show ?case
  proof (cases "row_kept row")
    case True
    then show ?thesis using Cons[of "as @ [article_of_row row]" ds "Suc i"]
      by (simp add: addRow_kept)
  next
    case False
    then show ?thesis using Cons[of as "ds @ [skip_warning i]" "Suc i"]
      by (simp add: addRow_skipped)
  qed
qed

lemma article_of_kept_row:
  "row_kept row \<Longrightarrow> title (article_of_row row) \<noteq> [] \<and> url (article_of_row row) \<noteq> []"
  by (simp add: row_kept_def article_of_row_def)

lemma parseCSV_fields_trimmed: "row \<in> set (parseCSV t) \<Longrightarrow> f \<in> set row \<Longrightarrow> trim f = f"
  by (auto simp: parseCSV_def parseLine_fields_trimmed)

text \<open>
  Claim C2. When the fetch succeeds, \<open>getNews\<close> drops the first parsed row whatever it
  holds, and turns the rows after it, in order, into one article for each row whose fields 0
  and 4 exist and are not empty (the parser has trimmed every field; columns 0 to 5 give
  title, date, image address, summary, address and source), and into one warning for every
  other row, numbered by the row's place in the feed; the call still returns its list. So
  every article returned has a title and an address that are not empty.
\<close>

theorem getNews_rows:
  "getNews (Fulfilled \<lparr>ok = True, statusText = st, text = Fulfilled csvText\<rparr>) =
     (map article_of_row (filter row_kept (drop 1 (parseCSV csvText))),
      map (skip_warning \<circ> fst)
        (filter (\<lambda>p. \<not> row_kept (snd p)) (enumerate 0 (drop 1 (parseCSV csvText)))))
   \<and> (\<forall>a \<in> set (fst (getNews (Fulfilled \<lparr>ok = True, statusText = st, text = Fulfilled csvText\<rparr>))).
         title a \<noteq> [] \<and> url a \<noteq> [])
   \<and> (\<forall>row \<in> set (parseCSV csvText). \<forall>f \<in> set row. trim f = f)"
proof (intro conjI)
  show g: "getNews (Fulfilled \<lparr>ok = True, statusText = st, text = Fulfilled csvText\<rparr>) =
     (map article_of_row (filter row_kept (drop 1 (parseCSV csvText))),
      map (skip_warning \<circ> fst)
        (filter (\<lambda>p. \<not> row_kept (snd p)) (enumerate 0 (drop 1 (parseCSV csvText)))))"
    by (simp add: getNews_def reduce_addRow Let_def)
  show "\<forall>a \<in> set (fst (getNews (Fulfilled \<lparr>ok = True, statusText = st, text = Fulfilled csvText\<rparr>))).
         title a \<noteq> [] \<and> url a \<noteq> []"
    unfolding g by (auto simp: article_of_kept_row)
  show "\<forall>row \<in> set (parseCSV csvText). \<forall>f \<in> set row. trim f = f"
    by (auto simp: parseCSV_fields_trimmed)
qed

text \<open>
  The theorem at a feed of a header and five rows: the second row has no title, the third
  an address of one space, the fourth two fields only.
\<close>

theorem getNews_rows_witness:
  "getNews (Fulfilled \<lparr>ok = True, statusText = ''OK'', text = Fulfilled (join_lines
      [''t,d,i,s,u,src'', ''A,5/4/2025,,S,http://a,W'', '',x,,,http://b,W'', ''C,,,, ,W'', ''D,e'',
       ''F,,img,,http://f''])\<rparr>) =
     ([\<lparr>title = ''A'', summary = ''S'', url = ''http://a'', source = ''W'',
         category = ''General'', imageUrl = [], date = Some ''5/4/2025''\<rparr>,
       \<lparr>title = ''F'', summary = ''No Summary'', url = ''http://f'', source = ''Unknown Source'',
         category = ''General'', imageUrl = ''img'', date = None\<rparr>],
      [Warn ''Skipping row 3 due to missing title or URL.'',
       Warn ''Skipping row 4 due to missing title or URL.'',
       Warn ''Skipping row 5 due to missing title or URL.''])"
proof -
  let ?t = "join_lines
      [''t,d,i,s,u,src'', ''A,5/4/2025,,S,http://a,W'', '',x,,,http://b,W'', ''C,,,, ,W'', ''D,e'',
       ''F,,img,,http://f'']"
  have e: "(map article_of_row (filter row_kept (drop 1 (parseCSV ?t))),
      map (skip_warning \<circ> fst)
        (filter (\<lambda>p. \<not> row_kept (snd p)) (enumerate 0 (drop 1 (parseCSV ?t))))) =
     ([\<lparr>title = ''A'', summary = ''S'', url = ''http://a'', source = ''W'',
         category = ''General'', imageUrl = [], date = Some ''5/4/2025''\<rparr>,
       \<lparr>title = ''F'', summary = ''No Summary'', url = ''http://f'', source = ''Unknown Source'',
         category = ''General'', imageUrl = ''img'', date = None\<rparr>],
      [Warn ''Skipping row 3 due to missing title or URL.'',
       Warn ''Skipping row 4 due to missing title or URL.'',
       Warn ''Skipping row 5 due to missing title or URL.''])"
    by code_simp
  show ?thesis
    using getNews_rows[of "''OK''" ?t] unfolding e by blast
qed

text \<open>
  Claim C6. When \<open>fetch\<close> rejects (a network error or any thrown exception), when the
  response is not \<open>ok\<close>, and when reading the body rejects, \<open>getNews\<close> returns the empty
  list and writes one error to the console; nothing is thrown to the caller.
\<close>

theorem getNews_failure:
  "getNews (Rejected e) = ([], [Error ''Error fetching or parsing news data:'' e])
   \<and> getNews (Fulfilled \<lparr>ok = False, statusText = st, text = body\<rparr>) =
       ([], [Error ''Error fetching or parsing news data:'' (''Failed to fetch CSV: '' @ st)])
   \<and> getNews (Fulfilled \<lparr>ok = True, statusText = st, text = Rejected e\<rparr>) =
       ([], [Error ''Error fetching or parsing news data:'' e])"
  by (simp add: getNews_def)

section \<open>Properties of the date normalizer\<close>

lemma parseDateString_valid:
  "fst (parseDateString lib d) = Some x \<Longrightarrow> \<exists>t. x = Date_at t"
  by (cases x)
     (auto simp: parseDateString_def isNaN_def Let_def
           split: option.splits outcome.splits if_splits jsdate.splits)

lemma parseDateString_spec:
  assumes "ds \<noteq> []" and "\<forall>f e. parse lib ds f \<noteq> Throws e"
  shows "fst (parseDateString lib (Some ds)) = spec_normalize lib (Some ds)"
proof -
  obtain a where a: "parse lib ds ''M/d/yyyy'' = Returns a"
    using assms(2) by (cases "parse lib ds ''M/d/yyyy''") auto
  obtain b where b: "parse lib ds ''yyyy-MM-dd'' = Returns b"
    using assms(2) by (cases "parse lib ds ''yyyy-MM-dd''") auto
  show ?thesis
    using assms(1) a b
    by (cases a; cases b; cases "newDate lib ds")
       (simp_all add: parseDateString_def spec_normalize_def spec_attempts_def valid_attempt_def
          isNaN_def Let_def)
qed

lemma formatDate_choice:
  "ds \<noteq> [] \<Longrightarrow>
   fst (formatDate lib (Some ds)) =
     (case fst (parseDateString lib (Some ds)) of
        None \<Rightarrow> Some ds
      | Some d \<Rightarrow> (case format lib d ''d MMM yyyy'' of Returns s \<Rightarrow> Some s | Throws e \<Rightarrow> Some ds))"
  by (auto simp: formatDate_def parseDateString_def isNaN_def Let_def
           split: option.splits outcome.splits if_splits jsdate.splits)

text \<open>
  Claim C3. Without a date string, and for the empty string as well, \<open>parseDateString\<close>
  returns \<open>null\<close> and calls no parser, whatever the library would make of that input.
  With a string that is not empty, it calls the parsers in the order month/day/year, year-month-day, generic; the
  first that returns a valid date ends the function with that date, and no later parser is
  called. When all three return an invalid date the function returns \<open>null\<close> after one
  warning. For a library that does not throw this is the first valid attempt of the ordered
  list of the specification. When a parser throws, the function returns \<open>null\<close> after one
  error message and calls no later parser. \<open>formatDate\<close> settles on the same date, by the
  same order, and also returns \<open>null\<close> without a call for the absent and the empty string.
\<close>

theorem parseDateString_priority:
  "parseDateString lib None = (None, [])
   \<and> (ds \<noteq> [] \<and> parse lib ds ''M/d/yyyy'' = Returns (Date_at t) \<longrightarrow>
        parseDateString lib (Some ds) = (Some (Date_at t), [Called_parse ds ''M/d/yyyy'']))
   \<and> (ds \<noteq> [] \<and> parse lib ds ''M/d/yyyy'' = Returns Invalid_Date
        \<and> parse lib ds ''yyyy-MM-dd'' = Returns (Date_at t) \<longrightarrow>
        parseDateString lib (Some ds) =
          (Some (Date_at t), [Called_parse ds ''M/d/yyyy'', Called_parse ds ''yyyy-MM-dd'']))
   \<and> (ds \<noteq> [] \<and> parse lib ds ''M/d/yyyy'' = Returns Invalid_Date
        \<and> parse lib ds ''yyyy-MM-dd'' = Returns Invalid_Date
        \<and> newDate lib ds = Date_at t \<longrightarrow>
        parseDateString lib (Some ds) =
          (Some (Date_at t),
           [Called_parse ds ''M/d/yyyy'', Called_parse ds ''yyyy-MM-dd'', Called_newDate ds]))
   \<and> (ds \<noteq> [] \<and> parse lib ds ''M/d/yyyy'' = Returns Invalid_Date
        \<and> parse lib ds ''yyyy-MM-dd'' = Returns Invalid_Date
        \<and> newDate lib ds = Invalid_Date \<longrightarrow>
        parseDateString lib (Some ds) =
          (None,
           [Called_parse ds ''M/d/yyyy'', Called_parse ds ''yyyy-MM-dd'', Called_newDate ds,
            Logged (Warn (''Could not parse date for sorting: '' @ ds))]))
   \<and> (ds \<noteq> [] \<and> (\<forall>f e. parse lib ds f \<noteq> Throws e) \<longrightarrow>
        fst (parseDateString lib (Some ds)) = spec_normalize lib (Some ds))
   \<and> (ds \<noteq> [] \<longrightarrow>
        fst (formatDate lib (Some ds)) =
          (case fst (parseDateString lib (Some ds)) of
             None \<Rightarrow> Some ds
           | Some d \<Rightarrow>
               (case format lib d ''d MMM yyyy'' of Returns s \<Rightarrow> Some s | Throws e \<Rightarrow> Some ds)))
   \<and> formatDate lib None = (None, [])
   \<and> parseDateString lib (Some []) = (None, [])
   \<and> formatDate lib (Some []) = (None, [])
   \<and> (ds \<noteq> [] \<and> parse lib ds ''M/d/yyyy'' = Throws err \<longrightarrow>
        parseDateString lib (Some ds) =
          (None, [Called_parse ds ''M/d/yyyy'',
                  Logged (Error (''Error parsing date: '' @ ds) err)]))
   \<and> (ds \<noteq> [] \<and> parse lib ds ''M/d/yyyy'' = Returns Invalid_Date
        \<and> parse lib ds ''yyyy-MM-dd'' = Throws err \<longrightarrow>
        parseDateString lib (Some ds) =
          (None, [Called_parse ds ''M/d/yyyy'', Called_parse ds ''yyyy-MM-dd'',
                  Logged (Error (''Error parsing date: '' @ ds) err)]))"
proof (intro conjI impI)
  show "parseDateString lib None = (None, [])"
    by (simp add: parseDateString_def)
  show "formatDate lib None = (None, [])"
    by (simp add: formatDate_def)
  show "parseDateString lib (Some []) = (None, [])"
    by (simp add: parseDateString_def)
  show "formatDate lib (Some []) = (None, [])"
    by (simp add: formatDate_def)
next
  assume "ds \<noteq> [] \<and> parse lib ds ''M/d/yyyy'' = Throws err"
  then show "parseDateString lib (Some ds) =
          (None, [Called_parse ds ''M/d/yyyy'',
                  Logged (Error (''Error parsing date: '' @ ds) err)])"
    by (simp add: parseDateString_def)
next
  assume "ds \<noteq> [] \<and> parse lib ds ''M/d/yyyy'' = Returns Invalid_Date
        \<and> parse lib ds ''yyyy-MM-dd'' = Throws err"
  then show "parseDateString lib (Some ds) =
          (None, [Called_parse ds ''M/d/yyyy'', Called_parse ds ''yyyy-MM-dd'',
                  Logged (Error (''Error parsing date: '' @ ds) err)])"
    by (simp add: parseDateString_def isNaN_def)
next
  assume "ds \<noteq> [] \<and> parse lib ds ''M/d/yyyy'' = Returns (Date_at t)"
  then show "parseDateString lib (Some ds) = (Some (Date_at t), [Called_parse ds ''M/d/yyyy''])"
    by (simp add: parseDateString_def isNaN_def)
next
  assume "ds \<noteq> [] \<and> parse lib ds ''M/d/yyyy'' = Returns Invalid_Date
        \<and> parse lib ds ''yyyy-MM-dd'' = Returns (Date_at t)"
  then show "parseDateString lib (Some ds) =
          (Some (Date_at t), [Called_parse ds ''M/d/yyyy'', Called_parse ds ''yyyy-MM-dd''])"
    by (simp add: parseDateString_def isNaN_def)
next
  assume "ds \<noteq> [] \<and> parse lib ds ''M/d/yyyy'' = Returns Invalid_Date
        \<and> parse lib ds ''yyyy-MM-dd'' = Returns Invalid_Date
        \<and> newDate lib ds = Date_at t"
  then show "parseDateString lib (Some ds) =
          (Some (Date_at t),
           [Called_parse ds ''M/d/yyyy'', Called_parse ds ''yyyy-MM-dd'', Called_newDate ds])"
    by (simp add: parseDateString_def isNaN_def)
next
  assume "ds \<noteq> [] \<and> parse lib ds ''M/d/yyyy'' = Returns Invalid_Date
        \<and> parse lib ds ''yyyy-MM-dd'' = Returns Invalid_Date
        \<and> newDate lib ds = Invalid_Date"
  then show "parseDateString lib (Some ds) =
          (None,
           [Called_parse ds ''M/d/yyyy'', Called_parse ds ''yyyy-MM-dd'', Called_newDate ds,
            Logged (Warn (''Could not parse date for sorting: '' @ ds))])"
    by (simp add: parseDateString_def isNaN_def)
next
  assume "ds \<noteq> [] \<and> (\<forall>f e. parse lib ds f \<noteq> Throws e)"
  then show "fst (parseDateString lib (Some ds)) = spec_normalize lib (Some ds)"
    by (intro parseDateString_spec) simp_all
next
  assume "ds \<noteq> []"
  then show "fst (formatDate lib (Some ds)) =
          (case fst (parseDateString lib (Some ds)) of
             None \<Rightarrow> Some ds
           | Some d \<Rightarrow>
               (case format lib d ''d MMM yyyy'' of Returns s \<Rightarrow> Some s | Throws e \<Rightarrow> Some ds))"
    by (rule formatDate_choice)
qed

text \<open>
  The theorem at four libraries, for the string \<open>x\<close>: one whose three parsers all return
  a valid date (the first wins), one whose first parser fails, one whose first two fail, and
  one where all fail; at the empty string, for the library that accepts everything; and at
  a library whose second parser throws.
\<close>

theorem parseDateString_priority_witness:
  "parseDateString
     \<lparr>parse = (\<lambda>s f. Returns (if f = ''M/d/yyyy'' then Date_at 1 else Date_at 2)),
      newDate = (\<lambda>s. Date_at 3), format = (\<lambda>d f. Returns ''4 May 2025'')\<rparr> (Some ''x'')
     = (Some (Date_at 1), [Called_parse ''x'' ''M/d/yyyy''])
   \<and> parseDateString
     \<lparr>parse = (\<lambda>s f. Returns (if f = ''M/d/yyyy'' then Invalid_Date else Date_at 2)),
      newDate = (\<lambda>s. Date_at 3), format = (\<lambda>d f. Returns ''4 May 2025'')\<rparr> (Some ''x'')
     = (Some (Date_at 2), [Called_parse ''x'' ''M/d/yyyy'', Called_parse ''x'' ''yyyy-MM-dd''])
   \<and> parseDateString
     \<lparr>parse = (\<lambda>s f. Returns Invalid_Date),
      newDate = (\<lambda>s. Date_at 3), format = (\<lambda>d f. Returns ''4 May 2025'')\<rparr> (Some ''x'')
     = (Some (Date_at 3),
        [Called_parse ''x'' ''M/d/yyyy'', Called_parse ''x'' ''yyyy-MM-dd'', Called_newDate ''x''])
   \<and> parseDateString
     \<lparr>parse = (\<lambda>s f. Returns Invalid_Date),
      newDate = (\<lambda>s. Invalid_Date), format = (\<lambda>d f. Returns ''4 May 2025'')\<rparr> (Some ''x'')
     = (None,
        [Called_parse ''x'' ''M/d/yyyy'', Called_parse ''x'' ''yyyy-MM-dd'', Called_newDate ''x'',
         Logged (Warn ''Could not parse date for sorting: x'')])
   \<and> spec_normalize
     \<lparr>parse = (\<lambda>s f. Returns (if f = ''M/d/yyyy'' then Invalid_Date else Date_at 2)),
      newDate = (\<lambda>s. Date_at 3), format = (\<lambda>d f. Returns ''4 May 2025'')\<rparr> (Some ''x'')
     = Some (Date_at 2)
   \<and> fst (formatDate
     \<lparr>parse = (\<lambda>s f. Returns (if f = ''M/d/yyyy'' then Invalid_Date else Date_at 2)),
      newDate = (\<lambda>s. Date_at 3), format = (\<lambda>d f. Returns ''4 May 2025'')\<rparr> (Some ''x''))
     = Some ''4 May 2025''
   \<and> parseDateString
     \<lparr>parse = (\<lambda>s f. Returns (if f = ''M/d/yyyy'' then Date_at 1 else Date_at 2)),
      newDate = (\<lambda>s. Date_at 3), format = (\<lambda>d f. Returns ''4 May 2025'')\<rparr> (Some [])
     = (None, [])
   \<and> formatDate
     \<lparr>parse = (\<lambda>s f. Returns (if f = ''M/d/yyyy'' then Date_at 1 else Date_at 2)),
      newDate = (\<lambda>s. Date_at 3), format = (\<lambda>d f. Returns ''4 May 2025'')\<rparr> (Some [])
     = (None, [])
   \<and> parseDateString
     \<lparr>parse = (\<lambda>s f. if f = ''M/d/yyyy'' then Returns Invalid_Date else Throws ''RangeError''),
      newDate = (\<lambda>s. Date_at 3), format = (\<lambda>d f. Returns ''4 May 2025'')\<rparr> (Some ''x'')
     = (None,
        [Called_parse ''x'' ''M/d/yyyy'', Called_parse ''x'' ''yyyy-MM-dd'',
         Logged (Error ''Error parsing date: x'' ''RangeError'')])"
proof -
  let ?L1 = "\<lparr>parse = (\<lambda>s f. Returns (if f = ''M/d/yyyy'' then Date_at 1 else Date_at 2)),
      newDate = (\<lambda>s. Date_at 3), format = (\<lambda>d f. Returns ''4 May 2025'')\<rparr>"
  let ?L2 = "\<lparr>parse = (\<lambda>s f. Returns (if f = ''M/d/yyyy'' then Invalid_Date else Date_at 2)),
      newDate = (\<lambda>s. Date_at 3), format = (\<lambda>d f. Returns ''4 May 2025'')\<rparr>"
  let ?L3 = "\<lparr>parse = (\<lambda>s f. Returns Invalid_Date),
      newDate = (\<lambda>s. Date_at 3), format = (\<lambda>d f. Returns ''4 May 2025'')\<rparr>"
  let ?L4 = "\<lparr>parse = (\<lambda>s f. Returns Invalid_Date),
      newDate = (\<lambda>s. Invalid_Date), format = (\<lambda>d f. Returns ''4 May 2025'')\<rparr>"
  have p1: "''x'' \<noteq> [] \<and> parse ?L1 ''x'' ''M/d/yyyy'' = Returns (Date_at 1)"
    by simp
  have p2: "''x'' \<noteq> [] \<and> parse ?L2 ''x'' ''M/d/yyyy'' = Returns Invalid_Date
        \<and> parse ?L2 ''x'' ''yyyy-MM-dd'' = Returns (Date_at 2)"
    by simp
  have p3: "''x'' \<noteq> [] \<and> parse ?L3 ''x'' ''M/d/yyyy'' = Returns Invalid_Date
        \<and> parse ?L3 ''x'' ''yyyy-MM-dd'' = Returns Invalid_Date
        \<and> newDate ?L3 ''x'' = Date_at 3"
    by simp
  have p4: "''x'' \<noteq> [] \<and> parse ?L4 ''x'' ''M/d/yyyy'' = Returns Invalid_Date
        \<and> parse ?L4 ''x'' ''yyyy-MM-dd'' = Returns Invalid_Date
        \<and> newDate ?L4 ''x'' = Invalid_Date"
    by simp
  have p5: "''x'' \<noteq> [] \<and> (\<forall>f e. parse ?L2 ''x'' f \<noteq> Throws e)"
    by simp
  have a1: "parseDateString ?L1 (Some ''x'') = (Some (Date_at 1), [Called_parse ''x'' ''M/d/yyyy''])"
    using parseDateString_priority[of ?L1 "''x''" 1] p1 by blast
  have a2: "parseDateString ?L2 (Some ''x'')
     = (Some (Date_at 2), [Called_parse ''x'' ''M/d/yyyy'', Called_parse ''x'' ''yyyy-MM-dd''])"
    using parseDateString_priority[of ?L2 "''x''" 2] p2 by blast
  have a3: "parseDateString ?L3 (Some ''x'')
     = (Some (Date_at 3),
        [Called_parse ''x'' ''M/d/yyyy'', Called_parse ''x'' ''yyyy-MM-dd'', Called_newDate ''x''])"
    using parseDateString_priority[of ?L3 "''x''" 3] p3 by blast
  have a4: "parseDateString ?L4 (Some ''x'')
     = (None,
        [Called_parse ''x'' ''M/d/yyyy'', Called_parse ''x'' ''yyyy-MM-dd'', Called_newDate ''x'',
         Logged (Warn (''Could not parse date for sorting: '' @ ''x''))])"
    using parseDateString_priority[of ?L4 "''x''" 0] p4 by blast
  have h2: "fst (parseDateString ?L2 (Some ''x'')) = spec_normalize ?L2 (Some ''x'')"
    using parseDateString_priority[of ?L2 "''x''" 2] p5 by blast
  have a5: "spec_normalize ?L2 (Some ''x'') = Some (Date_at 2)"
    unfolding h2[symmetric] a2 by simp
  have h3: "fst (formatDate ?L2 (Some ''x'')) =
          (case fst (parseDateString ?L2 (Some ''x'')) of
             None \<Rightarrow> Some ''x''
           | Some d \<Rightarrow>
               (case format ?L2 d ''d MMM yyyy'' of Returns s \<Rightarrow> Some s | Throws e \<Rightarrow> Some ''x''))"
    using parseDateString_priority[of ?L2 "''x''" 2] p5 by blast
  have f2: "fst (formatDate ?L2 (Some ''x'')) = Some ''4 May 2025''"
    unfolding h3 a2 by simp
  let ?L5 = "\<lparr>parse = (\<lambda>s f. if f = ''M/d/yyyy'' then Returns Invalid_Date
                                  else Throws ''RangeError''),
      newDate = (\<lambda>s. Date_at 3), format = (\<lambda>d f. Returns ''4 May 2025'')\<rparr>"
  have p6: "''x'' \<noteq> [] \<and> parse ?L5 ''x'' ''M/d/yyyy'' = Returns Invalid_Date
        \<and> parse ?L5 ''x'' ''yyyy-MM-dd'' = Throws ''RangeError''"
    by simp
  have a6: "parseDateString ?L1 (Some []) = (None, [])"
    using parseDateString_priority[of ?L1 "''x''" 1] by blast
  have a7: "formatDate ?L1 (Some []) = (None, [])"
    using parseDateString_priority[of ?L1 "''x''" 1] by blast
  have a8: "parseDateString ?L5 (Some ''x'')
     = (None,
        [Called_parse ''x'' ''M/d/yyyy'', Called_parse ''x'' ''yyyy-MM-dd'',
         Logged (Error (''Error parsing date: '' @ ''x'') ''RangeError'')])"
    using parseDateString_priority[where lib = ?L5 and ds = "''x''" and err = "''RangeError''"] p6
    by blast
  show ?thesis
    using a1 a2 a3 a4 a5 f2 a6 a7 a8 by simp
qed

section \<open>Properties of the ordering\<close>

subsection \<open>The sort\<close>

lemma mset_insert_cmp: "mset (insert_cmp cmp x ys) = add_mset x (mset ys)"
  by (induction ys) auto

lemma mset_sort_js: "mset (sort_js cmp xs) = mset xs"
  by (induction xs) (auto simp: sort_js_def mset_insert_cmp)

lemma set_sort_js: "set (sort_js cmp xs) = set xs"
  using mset_sort_js[of cmp xs] by (metis set_mset_mset)

lemma length_sort_js: "length (sort_js cmp xs) = length xs"
  using mset_sort_js[of cmp xs] by (metis size_mset)

lemma sort_js_Cons: "sort_js cmp (x # xs) = insert_cmp cmp x (sort_js cmp xs)"
  by (simp add: sort_js_def)

lemma sorted_insert_cmp:
  assumes "agrees cmp k (insert x (set ys))" and "sorted_wrt (\<lambda>a b. k b \<le> k a) ys"
  shows "sorted_wrt (\<lambda>a b. k b \<le> k a) (insert_cmp cmp x ys)"
  using assms
proof (induction ys)
  case Nil
  then show ?case by simp
next
  case (Cons y ys)
  have ag: "agrees cmp k (insert x (set ys))"
    using Cons.prems(1) by (auto simp: agrees_def)
  have xy: "(cmp x y \<le> 0) = (k y \<le> k x)"
    using Cons.prems(1) by (auto simp: agrees_def)
  show ?case
  proof (cases "cmp x y \<le> 0")
    case True
    then show ?thesis using Cons.prems(2) xy by auto
  next
    case False
    then have "k x \<le> k y" using xy by simp
    moreover have "sorted_wrt (\<lambda>a b. k b \<le> k a) (insert_cmp cmp x ys)"
      using Cons.IH[OF ag] Cons.prems(2) by simp
    moreover have "set (insert_cmp cmp x ys) = insert x (set ys)"
      using mset_insert_cmp[of cmp x ys] by (metis set_mset_mset set_mset_add_mset_insert)
    ultimately show ?thesis using False Cons.prems(2) by auto
  qed
qed

lemma sorted_sort_js:
  "agrees cmp k (set xs) \<Longrightarrow> sorted_wrt (\<lambda>a b. k b \<le> k a) (sort_js cmp xs)"
proof (induction xs)
  case Nil
  show ?case by (simp add: sort_js_def)
next
  case (Cons x xs)
  have "agrees cmp k (set xs)" using Cons.prems by (auto simp: agrees_def)
  from Cons.IH[OF this] show ?case
    unfolding sort_js_Cons
    by (intro sorted_insert_cmp) (use Cons.prems in \<open>simp_all add: set_sort_js\<close>)
qed

lemma filter_insert_cmp_other:
  "\<not> P x \<Longrightarrow> filter P (insert_cmp cmp x ys) = filter P ys"
  by (induction ys) auto

lemma filter_insert_cmp_key:
  "agrees cmp k (insert x (set ys)) \<Longrightarrow>
   filter (\<lambda>y. k y = k x) (insert_cmp cmp x ys) = x # filter (\<lambda>y. k y = k x) ys"
proof (induction ys)
  case Nil
  show ?case by simp
next
  case (Cons y ys)
  have ag: "agrees cmp k (insert x (set ys))"
    using Cons.prems by (auto simp: agrees_def)
  have xy: "(cmp x y \<le> 0) = (k y \<le> k x)"
    using Cons.prems by (auto simp: agrees_def)
  show ?case
  proof (cases "cmp x y \<le> 0")
    case True
    then show ?thesis by simp
  next
    case False
    then have "k y \<noteq> k x" using xy by auto
    then show ?thesis using False Cons.IH[OF ag] by simp
  qed
qed

lemma sort_js_stable:
  "agrees cmp k (set xs) \<Longrightarrow>
   filter (\<lambda>y. k y = t) (sort_js cmp xs) = filter (\<lambda>y. k y = t) xs"
proof (induction xs)
  case Nil
  show ?case by (simp add: sort_js_def)
next
  case (Cons x xs)
  have ag: "agrees cmp k (set xs)" using Cons.prems by (auto simp: agrees_def)
  have ag': "agrees cmp k (insert x (set (sort_js cmp xs)))"
    using Cons.prems by (simp add: set_sort_js)
  show ?case
  proof (cases "k x = t")
    case True
    then show ?thesis
      using filter_insert_cmp_key[OF ag'] Cons.IH[OF ag] by (auto simp: sort_js_Cons)
  next
    case False
    then show ?thesis
      using Cons.IH[OF ag] by (simp add: sort_js_Cons filter_insert_cmp_other)
  qed
qed

subsection \<open>The sorted list of the page\<close>

lemma compareDesc_agrees:
  "\<forall>a\<in>A. \<exists>t. parsedDate a = Some (Date_at t) \<Longrightarrow>
   agrees (\<lambda>a b. compareDesc (the (parsedDate a)) (the (parsedDate b))) instant A"
  unfolding agrees_def
proof (intro ballI)
  fix x y assume a: "\<forall>a\<in>A. \<exists>t. parsedDate a = Some (Date_at t)" and "x \<in> A" "y \<in> A"
  then obtain tx ty where "parsedDate x = Some (Date_at tx)" "parsedDate y = Some (Date_at ty)"
    by blast
  then show "(compareDesc (the (parsedDate x)) (the (parsedDate y)) \<le> 0) = (instant y \<le> instant x)"
    by (simp add: compareDesc_def instant_def)
qed

lemma parsedDate_with [simp]: "parsedDate (with_parsedDate a d) = d"
  by (simp add: with_parsedDate_def)

lemma truncate_with [simp]: "NewsArticle.truncate (with_parsedDate a d) = a"
  by (simp add: with_parsedDate_def NewsArticle.truncate_def)

lemma dated_candidates:
  "filter (\<lambda>article. parsedDate article \<noteq> None)
     (map (\<lambda>article. with_parsedDate article (fst (parseDateString lib (date article)))) allArticles)
   = map (\<lambda>article. with_parsedDate article (fst (parseDateString lib (date article))))
       (filter (\<lambda>article. fst (parseDateString lib (date article)) \<noteq> None) allArticles)"
  by (induction allArticles) auto

lemma candidates_valid:
  "a \<in> set (map (\<lambda>article. with_parsedDate article (fst (parseDateString lib (date article))))
       (filter (\<lambda>article. fst (parseDateString lib (date article)) \<noteq> None) allArticles))
   \<Longrightarrow> \<exists>t. parsedDate a = Some (Date_at t)"
  using parseDateString_valid by fastforce

lemma sortedArticles_eq:
  "sortedArticles lib allArticles =
     sort_js (\<lambda>a b. compareDesc (the (parsedDate a)) (the (parsedDate b)))
       (map (\<lambda>article. with_parsedDate article (fst (parseDateString lib (date article))))
          (filter (\<lambda>article. fst (parseDateString lib (date article)) \<noteq> None) allArticles))"
  by (simp only: sortedArticles_def dated_candidates)

lemma sortedArticles_mset:
  "mset (sortedArticles lib allArticles) =
     mset (map (\<lambda>article. with_parsedDate article (fst (parseDateString lib (date article))))
            (filter (\<lambda>article. fst (parseDateString lib (date article)) \<noteq> None) allArticles))"
  by (simp only: sortedArticles_eq mset_sort_js)

lemma sortedArticles_valid:
  "a \<in> set (sortedArticles lib allArticles) \<Longrightarrow> \<exists>t. parsedDate a = Some (Date_at t)"
  unfolding sortedArticles_eq set_sort_js by (rule candidates_valid)

lemma sortedArticles_agrees:
  "agrees (\<lambda>a b. compareDesc (the (parsedDate a)) (the (parsedDate b))) instant
     (set (map (\<lambda>article. with_parsedDate article (fst (parseDateString lib (date article))))
          (filter (\<lambda>article. fst (parseDateString lib (date article)) \<noteq> None) allArticles)))"
  by (intro compareDesc_agrees ballI candidates_valid)

lemma sortedArticles_sorted:
  "sorted_wrt (\<lambda>a b. instant b \<le> instant a) (sortedArticles lib allArticles)"
  unfolding sortedArticles_eq by (intro sorted_sort_js sortedArticles_agrees)

lemma instant_with:
  "instant (with_parsedDate a (Some (Date_at t))) = t"
  by (simp add: instant_def)

lemma sortedArticles_stable:
  "filter (\<lambda>a. instant a = t) (sortedArticles lib allArticles) =
     map (\<lambda>article. with_parsedDate article (fst (parseDateString lib (date article))))
       (filter (\<lambda>article. fst (parseDateString lib (date article)) = Some (Date_at t)) allArticles)"
proof -
  have "filter (\<lambda>a. instant a = t) (sortedArticles lib allArticles) =
        filter (\<lambda>a. instant a = t)
          (map (\<lambda>article. with_parsedDate article (fst (parseDateString lib (date article))))
            (filter (\<lambda>article. fst (parseDateString lib (date article)) \<noteq> None) allArticles))"
    unfolding sortedArticles_eq by (intro sort_js_stable sortedArticles_agrees)
  also have "\<dots> = map (\<lambda>article. with_parsedDate article (fst (parseDateString lib (date article))))
       (filter (\<lambda>article. fst (parseDateString lib (date article)) = Some (Date_at t)) allArticles)"
  proof (induction allArticles)
    case Nil
    show ?case by simp
  next
    case (Cons a as)
    show ?case
    proof (cases "fst (parseDateString lib (date a))")
      case None
      then show ?thesis using Cons by simp
    next
      case (Some d)
      then obtain u where "d = Date_at u" using parseDateString_valid by blast
      then show ?thesis using Cons Some by (simp add: instant_with)
    qed
  qed
  finally show ?thesis .
qed

lemma parseable_iff:
  assumes "\<forall>ds f e. parse lib ds f \<noteq> Throws e"
  shows "(fst (parseDateString lib d) \<noteq> None) =
         (\<exists>ds. d = Some ds \<and> ds \<noteq> [] \<and> (\<exists>x\<in>set (spec_attempts lib ds). valid_attempt x))"
proof (cases d)
  case None
  then show ?thesis by (simp add: parseDateString_def)
next
  case (Some ds)
  show ?thesis
  proof (cases "ds = []")
    case True
    then show ?thesis using Some by (simp add: parseDateString_def)
  next
    case False
    have "fst (parseDateString lib (Some ds)) = spec_normalize lib (Some ds)"
      using False assms by (intro parseDateString_spec) simp_all
    moreover have "(spec_normalize lib (Some ds) \<noteq> None) =
                   (\<exists>x\<in>set (spec_attempts lib ds). valid_attempt x)"
    proof (cases "find valid_attempt (spec_attempts lib ds)")
      case None
      then have "\<forall>x\<in>set (spec_attempts lib ds). \<not> valid_attempt x"
        by (simp add: find_None_iff)
      moreover have "spec_normalize lib (Some ds) = None"
        by (simp only: spec_normalize_def None option.case)
      ultimately show ?thesis by simp
    next
      case (Some x)
      then have v: "valid_attempt x" and m: "x \<in> set (spec_attempts lib ds)"
        by (auto simp: find_Some_iff)
      from v obtain u where "x = Returns (Date_at u)"
        by (auto simp: valid_attempt_def split: outcome.splits jsdate.splits)
      then show ?thesis using Some v m by (auto simp: spec_normalize_def)
    qed
    ultimately show ?thesis using Some False by simp
  qed
qed

text \<open>
  Claim C4. The sorted list of the page holds exactly the articles for which
  \<open>parseDateString\<close> returns a date, each once and each with that date, which is always a
  valid one; the articles without such a date are left out and nothing is thrown. The list
  is in descending order of the instants. The articles of any one instant stand in the
  sorted list in the order they have in the feed. For a library that does not throw, an
  article has such a date exactly when its date string is present, not empty, and one of
  the three formats gives a valid date for it.
\<close>

theorem sortedArticles_newest_first_stable:
  "mset (sortedArticles lib allArticles) =
     mset (map (\<lambda>article. with_parsedDate article (fst (parseDateString lib (date article))))
            (filter (\<lambda>article. fst (parseDateString lib (date article)) \<noteq> None) allArticles))
   \<and> (\<forall>a \<in> set (sortedArticles lib allArticles). \<exists>t. parsedDate a = Some (Date_at t))
   \<and> sorted_wrt (\<lambda>a b. instant b \<le> instant a) (sortedArticles lib allArticles)
   \<and> filter (\<lambda>a. instant a = t) (sortedArticles lib allArticles) =
       map (\<lambda>article. with_parsedDate article (fst (parseDateString lib (date article))))
         (filter (\<lambda>article. fst (parseDateString lib (date article)) = Some (Date_at t)) allArticles)
   \<and> ((\<forall>ds f e. parse lib ds f \<noteq> Throws e) \<longrightarrow>
        (fst (parseDateString lib d) \<noteq> None) =
        (\<exists>ds. d = Some ds \<and> ds \<noteq> [] \<and> (\<exists>x\<in>set (spec_attempts lib ds). valid_attempt x)))"
  using sortedArticles_mset[of lib allArticles] sortedArticles_valid[of _ lib allArticles]
    sortedArticles_sorted[of lib allArticles] sortedArticles_stable[of t lib allArticles]
    parseable_iff[of lib d]
  by blast

text \<open>
  The theorem at a feed of five articles and a library that reads \<open>5/4/2025\<close> as the
  instant 10 and \<open>2025-05-05\<close> as the instant 20: the article without a date and the one
  dated \<open>soon\<close> are left out, the later instant comes first, and the two articles of the
  instant 10 keep their feed order.
\<close>

theorem sortedArticles_newest_first_stable_witness:
  "(let lib = \<lparr>parse = (\<lambda>s f. Returns
                   (if f = ''M/d/yyyy'' \<and> s = ''5/4/2025'' then Date_at 10
                    else if f = ''yyyy-MM-dd'' \<and> s = ''2025-05-05'' then Date_at 20
                    else Invalid_Date)),
                newDate = (\<lambda>s. Invalid_Date), format = (\<lambda>d f. Returns [])\<rparr>;
        article = (\<lambda>t d. \<lparr>title = t, summary = [], url = ''u'', source = [], category = [],
                            imageUrl = [], date = d\<rparr>);
        dated = (\<lambda>t d p. \<lparr>title = t, summary = [], url = ''u'', source = [], category = [],
                            imageUrl = [], date = d, parsedDate = p\<rparr>);
        feed = [article ''A'' (Some ''5/4/2025''), article ''B'' None,
                article ''C'' (Some ''2025-05-05''), article ''D'' (Some ''5/4/2025''),
                article ''E'' (Some ''soon'')]
    in sortedArticles lib feed =
         [dated ''C'' (Some ''2025-05-05'') (Some (Date_at 20)),
          dated ''A'' (Some ''5/4/2025'') (Some (Date_at 10)),
          dated ''D'' (Some ''5/4/2025'') (Some (Date_at 10))]
       \<and> sorted_wrt (\<lambda>a b. instant b \<le> instant a) (sortedArticles lib feed)
       \<and> filter (\<lambda>a. instant a = 10) (sortedArticles lib feed) =
           [dated ''A'' (Some ''5/4/2025'') (Some (Date_at 10)),
            dated ''D'' (Some ''5/4/2025'') (Some (Date_at 10))]
       \<and> (fst (parseDateString lib (Some ''soon'')) \<noteq> None) =
           (\<exists>x\<in>set (spec_attempts lib ''soon''). valid_attempt x)
       \<and> fst (parseDateString lib (Some ''soon'')) = None)"
proof -
  let ?lib = "\<lparr>parse = (\<lambda>s f. Returns
                   (if f = ''M/d/yyyy'' \<and> s = ''5/4/2025'' then Date_at 10
                    else if f = ''yyyy-MM-dd'' \<and> s = ''2025-05-05'' then Date_at 20
                    else Invalid_Date)),
                newDate = (\<lambda>s. Invalid_Date), format = (\<lambda>d f. Returns [])\<rparr>"
  let ?article = "\<lambda>t d. \<lparr>title = t, summary = [], url = ''u'', source = [], category = [],
                            imageUrl = [], date = d\<rparr>"
  let ?dated = "\<lambda>t d p. \<lparr>title = t, summary = [], url = ''u'', source = [], category = [],
                            imageUrl = [], date = d, parsedDate = p\<rparr>"
  let ?feed = "[?article ''A'' (Some ''5/4/2025''), ?article ''B'' None,
                ?article ''C'' (Some ''2025-05-05''), ?article ''D'' (Some ''5/4/2025''),
                ?article ''E'' (Some ''soon'')]"
  have e: "sortedArticles ?lib ?feed =
         [?dated ''C'' (Some ''2025-05-05'') (Some (Date_at 20)),
          ?dated ''A'' (Some ''5/4/2025'') (Some (Date_at 10)),
          ?dated ''D'' (Some ''5/4/2025'') (Some (Date_at 10))]"
    by code_simp
  have m: "map (\<lambda>article. with_parsedDate article (fst (parseDateString ?lib (date article))))
         (filter (\<lambda>article. fst (parseDateString ?lib (date article)) = Some (Date_at 10)) ?feed)
        = [?dated ''A'' (Some ''5/4/2025'') (Some (Date_at 10)),
            ?dated ''D'' (Some ''5/4/2025'') (Some (Date_at 10))]"
    by code_simp
  have n: "fst (parseDateString ?lib (Some ''soon'')) = None"
    by code_simp
  have h: "\<forall>ds f e. parse ?lib ds f \<noteq> Throws e"
    by simp
  have t: "sorted_wrt (\<lambda>a b. instant b \<le> instant a) (sortedArticles ?lib ?feed)
       \<and> filter (\<lambda>a. instant a = 10) (sortedArticles ?lib ?feed) =
         map (\<lambda>article. with_parsedDate article (fst (parseDateString ?lib (date article))))
         (filter (\<lambda>article. fst (parseDateString ?lib (date article)) = Some (Date_at 10)) ?feed)
       \<and> (fst (parseDateString ?lib (Some ''soon'')) \<noteq> None) =
           (\<exists>ds. Some ''soon'' = Some ds \<and> ds \<noteq> [] \<and>
                 (\<exists>x\<in>set (spec_attempts ?lib ds). valid_attempt x))"
    using sortedArticles_newest_first_stable[of ?lib ?feed 10 "Some ''soon''"] h by blast
  have t3: "(fst (parseDateString ?lib (Some ''soon'')) \<noteq> None) =
           (\<exists>x\<in>set (spec_attempts ?lib ''soon''). valid_attempt x)"
    using t by simp
  show ?thesis
    unfolding Let_def using e t[unfolded m] t3 n by blast
qed

subsection \<open>Featured and remaining articles\<close>

lemma sortedArticles_length:
  "length (sortedArticles lib allArticles) =
   length (filter (\<lambda>article. fst (parseDateString lib (date article)) \<noteq> None) allArticles)"
  by (simp add: sortedArticles_eq length_sort_js)

lemma first_or_none:
  "(if length xs > 0 then Some (xs ! 0) else None) = (case xs of [] \<Rightarrow> None | a # _ \<Rightarrow> Some a)"
  by (cases xs) simp_all

lemma rest_or_nil: "(if length xs > 1 then drop 1 xs else []) = drop 1 xs"
  by (cases xs) auto

text \<open>
  Claim C5. The featured list is \<open>slice(0, 4)\<close> of the sorted list, its first four items
  or all of them when there are fewer; the remaining list is \<open>slice(4)\<close>, the items from
  index 4 on. Both are in the sorted order, the featured list followed by the remaining list
  is the sorted list, the featured list has at most four items, and the two lengths add up
  to the number of articles with a parseable date. The main article is the first featured
  one and the side articles are the other featured ones.
\<close>

theorem Home_partition:
  "newestArticles (Home lib allArticles) = take 4 (sortedArticles lib allArticles)
   \<and> remainingArticles (Home lib allArticles) = drop 4 (sortedArticles lib allArticles)
   \<and> length (newestArticles (Home lib allArticles)) = min 4 (length (sortedArticles lib allArticles))
   \<and> length (newestArticles (Home lib allArticles)) \<le> 4
   \<and> newestArticles (Home lib allArticles) @ remainingArticles (Home lib allArticles)
       = sortedArticles lib allArticles
   \<and> length (newestArticles (Home lib allArticles)) + length (remainingArticles (Home lib allArticles))
       = length (filter (\<lambda>article. fst (parseDateString lib (date article)) \<noteq> None) allArticles)
   \<and> sorted_wrt (\<lambda>a b. instant b \<le> instant a) (newestArticles (Home lib allArticles))
   \<and> sorted_wrt (\<lambda>a b. instant b \<le> instant a) (remainingArticles (Home lib allArticles))
   \<and> mainArticle (Home lib allArticles) =
       (case newestArticles (Home lib allArticles) of [] \<Rightarrow> None | a # _ \<Rightarrow> Some a)
   \<and> sideArticles (Home lib allArticles) = drop 1 (newestArticles (Home lib allArticles))"
proof -
  let ?s = "sortedArticles lib allArticles"
  have n: "newestArticles (Home lib allArticles) = take 4 ?s"
    by (simp add: Home_def Let_def slice_def)
  have r: "remainingArticles (Home lib allArticles) = drop 4 ?s"
    by (simp add: Home_def Let_def slice_from_def)
  have m: "mainArticle (Home lib allArticles) = (case take 4 ?s of [] \<Rightarrow> None | a # _ \<Rightarrow> Some a)"
    unfolding Home_def Let_def slice_def by (simp only: home_view.simps first_or_none) simp
  have sd: "sideArticles (Home lib allArticles) = drop 1 (take 4 ?s)"
    unfolding Home_def Let_def slice_def slice_from_def
    by (simp only: home_view.simps rest_or_nil) simp
  have l: "length (take 4 ?s) + length (drop 4 ?s) = length ?s"
    by simp
  have s1: "sorted_wrt (\<lambda>a b. instant b \<le> instant a) (take 4 ?s)"
    using sortedArticles_sorted[of lib allArticles] by (rule sorted_wrt_take)
  have s2: "sorted_wrt (\<lambda>a b. instant b \<le> instant a) (drop 4 ?s)"
    using sortedArticles_sorted[of lib allArticles] by (rule sorted_wrt_drop)
  show ?thesis
    unfolding n r m sd
    using l s1 s2 sortedArticles_length[of lib allArticles] by simp
qed

section \<open>Properties of the card\<close>

lemma handleImageError_flagged:
  "imageError st \<Longrightarrow> handleImageError enc article sz st = []"
  by (simp add: handleImageError_def)

lemma image_failures_flagged:
  "imageError st \<Longrightarrow> image_failures enc article sz n st = (st, [])"
  by (induction n) (simp_all add: handleImageError_flagged)

lemma image_failures_first:
  assumes "\<not> imageError st"
  shows "image_failures enc article sz (Suc n) st =
     (st\<lparr>shownImageUrl := placeholder enc article sz, imageError := True\<rparr>,
      [SetImageUrl (placeholder enc article sz), SetImageError True])"
proof -
  let ?st = "st\<lparr>shownImageUrl := placeholder enc article sz, imageError := True\<rparr>"
  have "imageError ?st" by simp
  then have "image_failures enc article sz n ?st = (?st, [])"
    by (rule image_failures_flagged)
  then show ?thesis using assms by (simp add: handleImageError_def)
qed

text \<open>
  Claim C8. While the error flag of a card is not set, a load failure of its image makes the
  handler set the image address to the placeholder address, which is made of the encoded
  title and the width and height of the card's size, and set the flag; with the flag set
  the handler calls no setter. So any run of one or more load failures, from a state
  without the flag, ends in the state with the placeholder and the flag after exactly one
  swap, and any run of failures from a state with the flag changes nothing. A card starts
  without the flag.
\<close>

theorem image_failure_swaps_once:
  "(\<not> imageError st \<longrightarrow>
      handleImageError enc article sz st =
        [SetImageUrl (placeholder enc article sz), SetImageError True]
      \<and> image_failures enc article sz (Suc n) st =
        (st\<lparr>shownImageUrl := placeholder enc article sz, imageError := True\<rparr>,
         [SetImageUrl (placeholder enc article sz), SetImageError True]))
   \<and> (imageError st \<longrightarrow>
        handleImageError enc article sz st = [] \<and> image_failures enc article sz n st = (st, []))
   \<and> \<not> imageError (initial_card enc article sz)
   \<and> placeholder enc article sz =
        ''https://picsum.photos/seed/'' @ enc (title article) @ ''/'' @
        decimal (fst (getImageDimensions sz)) @ ''/'' @ decimal (snd (getImageDimensions sz))"
proof (intro conjI impI)
  assume a: "\<not> imageError st"
  then show "handleImageError enc article sz st =
        [SetImageUrl (placeholder enc article sz), SetImageError True]"
    by (simp add: handleImageError_def)
  from a show "image_failures enc article sz (Suc n) st =
        (st\<lparr>shownImageUrl := placeholder enc article sz, imageError := True\<rparr>,
         [SetImageUrl (placeholder enc article sz), SetImageError True])"
    by (rule image_failures_first)
next
  assume a: "imageError st"
  then show "handleImageError enc article sz st = []" by (rule handleImageError_flagged)
  from a show "image_failures enc article sz n st = (st, [])" by (rule image_failures_flagged)
next
  show "\<not> imageError (initial_card enc article sz)" by (simp add: initial_card_def)
  show "placeholder enc article sz =
        ''https://picsum.photos/seed/'' @ enc (title article) @ ''/'' @
        decimal (fst (getImageDimensions sz)) @ ''/'' @ decimal (snd (getImageDimensions sz))"
    by (simp add: placeholder_def split: prod.splits)
qed

text \<open>
  The theorem at a small card for an article titled \<open>News\<close>, with the identity for the
  encoding: three failures in a row from the initial state, then two more.
\<close>

theorem image_failure_swaps_once_witness:
  "(let article = \<lparr>title = ''News'', summary = [], url = ''u'', source = [], category = [],
                    imageUrl = ''http://img'', date = None\<rparr>
    in image_failures (\<lambda>s. s) article Small 3 (initial_card (\<lambda>s. s) article Small) =
         (\<lparr>shownImageUrl = ''https://picsum.photos/seed/News/400/250'', imageError = True,
            faviconError = False\<rparr>,
          [SetImageUrl ''https://picsum.photos/seed/News/400/250'', SetImageError True])
       \<and> image_failures (\<lambda>s. s) article Small 2
           \<lparr>shownImageUrl = ''https://picsum.photos/seed/News/400/250'', imageError = True,
            faviconError = False\<rparr> =
         (\<lparr>shownImageUrl = ''https://picsum.photos/seed/News/400/250'', imageError = True,
            faviconError = False\<rparr>, []))"
proof -
  let ?a = "\<lparr>title = ''News'', summary = [], url = ''u'', source = [], category = [],
                    imageUrl = ''http://img'', date = None\<rparr>"
  let ?st = "\<lparr>shownImageUrl = ''https://picsum.photos/seed/News/400/250'', imageError = True,
            faviconError = False\<rparr>"
  have h1: "\<not> imageError (initial_card (\<lambda>s. s) ?a Small)"
    by code_simp
  have h2: "imageError ?st"
    by simp
  have e: "(initial_card (\<lambda>s. s) ?a Small)
             \<lparr>shownImageUrl := ''https://picsum.photos/seed/News/400/250'', imageError := True\<rparr>
           = ?st"
    by code_simp
  have p: "placeholder (\<lambda>s. s) ?a Small = ''https://picsum.photos/seed/News/400/250''"
    by code_simp
  have a: "image_failures (\<lambda>s. s) ?a Small (Suc 2) (initial_card (\<lambda>s. s) ?a Small) =
        ((initial_card (\<lambda>s. s) ?a Small)
             \<lparr>shownImageUrl := placeholder (\<lambda>s. s) ?a Small, imageError := True\<rparr>,
         [SetImageUrl (placeholder (\<lambda>s. s) ?a Small), SetImageError True])"
    using image_failure_swaps_once[of "initial_card (\<lambda>s. s) ?a Small" "\<lambda>s. s" ?a Small 2] h1
    by blast
  have b: "image_failures (\<lambda>s. s) ?a Small 2 ?st = (?st, [])"
    using image_failure_swaps_once[of ?st "\<lambda>s. s" ?a Small 2] h2 by blast
  have three: "Suc 2 = 3" by simp
  note a' = a[unfolded p, unfolded e three]
  show ?thesis
    unfolding Let_def by (rule conjI[OF a' b])
qed

section \<open>The three dates of the specification\<close>

text \<open>
  Claim C7. With the formats as the specification describes them, \<open>parseDateString\<close> gives
  a valid instant for each of \<open>5/4/2025\<close> (by the first format), \<open>2025-05-04\<close> (by the
  second, after the first has failed) and \<open>2025-05-04 20:50:13\<close> (by the generic parse,
  after both have failed). The first two are the start of 4 May 2025, the third is 20:50:13
  of that day: all three lie in day 20212 after 1 January 1970, which is 4 May 2025.
\<close>

theorem three_dates_same_day:
  "fst (parseDateString spec_lib (Some ''5/4/2025'')) = Some (Date_at 1746316800000)
   \<and> fst (parseDateString spec_lib (Some ''2025-05-04'')) = Some (Date_at 1746316800000)
   \<and> fst (parseDateString spec_lib (Some ''2025-05-04 20:50:13'')) = Some (Date_at 1746391813000)
   \<and> calendar_day (Date_at 1746316800000) = Some 20212
   \<and> calendar_day (Date_at 1746391813000) = Some 20212
   \<and> days_from_civil 2025 5 4 = 20212"
  by code_simp

end
